theory Spec2Isabelle
  imports Main
begin

text \<open>
  A model of the normalization pipeline of \<open>scripts/normalize-drafts.mjs\<close> (splitting a
  draft, the local heuristic, the retry loop around the remote variant, the guard block,
  the content hash, the duplicate check and the serialization) and of the validator of
  \<open>scripts/validate-artifacts.mjs\<close> (the line parser and \<open>validateFile\<close>), with the
  functions of the JavaScript runtime that they call. The definitions come first, then
  the properties.
\<close>

section \<open>JavaScript strings\<close>

text \<open>
  A JavaScript string is a sequence of UTF-16 code units. A code unit is modelled as a
  natural number (below 65536 in every string the runtime can hold); a string is the
  list of its code units, so \<open>length\<close> is \<open>.length\<close> and \<open>s ! i\<close> is
  \<open>s.charCodeAt(i)\<close>. String constants of the scripts are written \<open>js ''...''\<close>.
\<close>

type_synonym cu = nat
type_synonym jsstring = "cu list"

definition js :: "string \<Rightarrow> jsstring" where
  "js s = map of_char s"

text \<open>
  The class \<open>\s\<close> of a regular expression, which is also what \<open>trim()\<close> strips:
  TAB, LF, VT, FF, CR, space, NBSP, U+1680, U+2000 to U+200A, U+2028, U+2029, U+202F,
  U+205F, U+3000 and U+FEFF.
\<close>

definition isSpace :: "cu \<Rightarrow> bool" where
  "isSpace c = (c = 9 \<or> c = 10 \<or> c = 11 \<or> c = 12 \<or> c = 13 \<or> c = 32 \<or> c = 160 \<or>
     c = 5760 \<or> (8192 \<le> c \<and> c \<le> 8202) \<or> c = 8232 \<or> c = 8233 \<or> c = 8239 \<or>
     c = 8287 \<or> c = 12288 \<or> c = 65279)"

text \<open>The class \<open>\w\<close>: \<open>[A-Za-z0-9_]\<close>.\<close>

definition isWord :: "cu \<Rightarrow> bool" where
  "isWord c = ((65 \<le> c \<and> c \<le> 90) \<or> (97 \<le> c \<and> c \<le> 122) \<or> (48 \<le> c \<and> c \<le> 57) \<or> c = 95)"

definition trim :: "jsstring \<Rightarrow> jsstring" where
  "trim s = rev (dropWhile isSpace (rev (dropWhile isSpace s)))"

text \<open>
  \<open>toLowerCase()\<close> is a function of the runtime. Its case tables are not part of the
  repository, so the functions of the scripts that call it take it as their first
  argument, named \<open>toLowerCase\<close>, and a property that is stated for every
  \<open>toLowerCase\<close> holds for the function of the runtime.

  \<open>toLowerCaseAscii\<close> is what the function of the runtime does on a string of ASCII
  code units (below U+0080): \<open>A-Z\<close> become \<open>a-z\<close> and every other code unit
  stays. It stands for the runtime in the example inputs, which are ASCII strings.
\<close>

type_synonym lowering = "jsstring \<Rightarrow> jsstring"

definition lowerCU :: "cu \<Rightarrow> cu" where
  "lowerCU c = (if 65 \<le> c \<and> c \<le> 90 then c + 32 else c)"

definition toLowerCaseAscii :: lowering where
  "toLowerCaseAscii s = map lowerCU s"

text \<open>
  \<open>toUpperCase()\<close> of one code unit. The scripts apply it to the first code unit of
  a match of \<open>\w\S*\<close> only, which is an ASCII letter, digit or underscore.
\<close>

definition upperCU :: "cu \<Rightarrow> cu" where
  "upperCU c = (if 97 \<le> c \<and> c \<le> 122 then c - 32 else c)"

fun startsWith :: "jsstring \<Rightarrow> jsstring \<Rightarrow> bool" where
  "startsWith s [] = True"
| "startsWith [] (k # ks) = False"
| "startsWith (c # cs) (k # ks) = (c = k \<and> startsWith cs ks)"

text \<open>\<open>s.includes(k)\<close>: \<open>k\<close> occurs in \<open>s\<close> as a contiguous substring.\<close>

fun str_includes :: "jsstring \<Rightarrow> jsstring \<Rightarrow> bool" where
  "str_includes [] k = (k = [])"
| "str_includes (c # cs) k = (startsWith (c # cs) k \<or> str_includes cs k)"

text \<open>The position of the first occurrence of \<open>k\<close> in \<open>s\<close>, if there is one.\<close>

fun findSub :: "jsstring \<Rightarrow> jsstring \<Rightarrow> nat option" where
  "findSub [] k = (if k = [] then Some 0 else None)"
| "findSub (c # cs) k =
     (if startsWith (c # cs) k then Some 0 else map_option Suc (findSub cs k))"

text \<open>
  \<open>s.indexOf(k, from)\<close> for \<open>from \<le> s.length\<close>; \<open>None\<close> is the result \<open>-1\<close>.
\<close>

definition indexOfFrom :: "jsstring \<Rightarrow> jsstring \<Rightarrow> nat \<Rightarrow> nat option" where
  "indexOfFrom s k from = map_option (\<lambda>i. i + from) (findSub (drop from s) k)"

text \<open>\<open>s.slice(a, b)\<close> and \<open>s.slice(a)\<close> for indices that are not negative.\<close>

definition slice :: "'a list \<Rightarrow> nat \<Rightarrow> nat \<Rightarrow> 'a list" where
  "slice s a b = take (b - a) (drop a s)"

definition sliceFrom :: "'a list \<Rightarrow> nat \<Rightarrow> 'a list" where
  "sliceFrom s a = drop a s"

text \<open>\<open>s.split(d)\<close> for a separator \<open>d\<close> of one code unit.\<close>

fun splitOn :: "cu \<Rightarrow> jsstring \<Rightarrow> jsstring list" where
  "splitOn d [] = [[]]"
| "splitOn d (c # cs) =
     (let r = splitOn d cs in if c = d then [] # r else (c # hd r) # tl r)"

text \<open>
  \<open>s.split(/\r?\n/)\<close>: the pieces between line feeds; a piece that a line feed ends
  loses one carriage return at its end, the last piece keeps it.
\<close>

definition dropCR :: "jsstring \<Rightarrow> jsstring" where
  "dropCR p = (if p \<noteq> [] \<and> last p = 13 then butlast p else p)"

definition splitLines :: "jsstring \<Rightarrow> jsstring list" where
  "splitLines s = (let ps = splitOn 10 s in map dropCR (butlast ps) @ [last ps])"

text \<open>\<open>s.split(/\s+/)\<close>: the pieces between maximal runs of white space.\<close>

function splitWs :: "jsstring \<Rightarrow> jsstring list" where
  "splitWs [] = [[]]"
| "splitWs (c # cs) =
     (if isSpace c then [] # splitWs (dropWhile isSpace cs)
      else (let r = splitWs cs in (c # hd r) # tl r))"
  by pat_completeness auto
termination
  by (relation "measure length") (auto simp: length_dropWhile_le less_Suc_eq_le)

fun join :: "jsstring \<Rightarrow> jsstring list \<Rightarrow> jsstring" where
  "join sep [] = []"
| "join sep [w] = w"
| "join sep (w # v # ws) = w @ sep @ join sep (v # ws)"

text \<open>\<open>s.replace(/\s+/g, r)\<close>: every maximal run of white space becomes \<open>r\<close>.\<close>

function replaceWsRuns :: "jsstring \<Rightarrow> jsstring \<Rightarrow> jsstring" where
  "replaceWsRuns r [] = []"
| "replaceWsRuns r (c # cs) =
     (if isSpace c then r @ replaceWsRuns r (dropWhile isSpace cs)
      else c # replaceWsRuns r cs)"
  by pat_completeness auto
termination
  by (relation "measure (\<lambda>(r, s). length s)") (auto simp: length_dropWhile_le less_Suc_eq_le)

text \<open>\<open>s.replace(/-/g, ' ')\<close>.\<close>

definition hyphensToSpaces :: "jsstring \<Rightarrow> jsstring" where
  "hyphensToSpaces s = map (\<lambda>c. if c = 45 then 32 else c) s"

text \<open>
  \<open>Array.from(new Set(xs))\<close>: the distinct elements in the order of their first
  occurrence. \<open>setAdd\<close> is \<open>Set.prototype.add\<close> on that list.
\<close>

definition setAdd :: "'a list \<Rightarrow> 'a \<Rightarrow> 'a list" where
  "setAdd acc x = (if x \<in> set acc then acc else acc @ [x])"

definition newSet :: "'a list \<Rightarrow> 'a list" where
  "newSet xs = foldl setAdd [] xs"

section \<open>normalize-drafts: the local heuristic and the tag enrichment\<close>

definition allowedLanes :: "jsstring list" where
  "allowedLanes = [js ''A'', js ''B'', js ''C'', js ''D'', js ''E'']"

definition tagVocab :: "jsstring list" where
  "tagVocab = map js
    [''heuristic'', ''checklist'', ''prompt'', ''rubric'', ''diagram'', ''visual'', ''schema'',
     ''json'', ''code'', ''kernel'', ''agent'', ''loop'', ''alpha'', ''beta'', ''gamma'',
     ''north-star'', ''donkey'', ''task-graph'', ''policy'', ''orchestrator'', ''reflection'',
     ''insight'', ''note'', ''strategy'', ''design'', ''pattern'']"

text \<open>
  The classification result that both oracle variants return and the guard block
  rewrites. A key that the object lacks (or whose value is \<open>null\<close>) is \<open>None\<close>;
  a key that is present holds a value of the type that the local heuristic gives it and
  that the prompt of the remote variant asks for: a string, or an array of strings. A
  result of the remote variant that is no object, or that has a value of another type,
  is outside this model.
\<close>

record normalized =
  title :: "jsstring option"
  lane :: "jsstring option"
  status :: "jsstring option"
  tags :: "jsstring list option"
  source_refs :: "jsstring list option"
  summary :: "jsstring option"
  publish_targets :: "jsstring list option"
  content :: "jsstring option"

definition defaultFrontmatter :: normalized where
  "defaultFrontmatter =
     \<lparr> title = Some [], lane = Some (js ''A''), status = Some (js ''draft''), tags = Some [],
       source_refs = Some [], summary = Some [], publish_targets = Some [js ''github''],
       content = None \<rparr>"

text \<open>A regular expression \<open>/(k1|k2|...)/\<close> of literal alternatives, tested on \<open>t\<close>.\<close>

definition testAny :: "string list \<Rightarrow> jsstring \<Rightarrow> bool" where
  "testAny ks t = list_ex (\<lambda>k. str_includes t (js k)) ks"

definition heuristicLane :: "jsstring \<Rightarrow> jsstring" where
  "heuristicLane t =
     (if testAny [''diagram'', ''graph'', ''visual'', ''schematic'', ''svg''] t then js ''B''
      else if testAny [''prompt'', ''rubric'', ''template''] t then js ''C''
      else if testAny [''schema'', ''json'', ''code'', ''task graph'', ''api''] t then js ''D''
      else if testAny [''insight'', ''note'', ''reflection'', ''aphorism''] t then js ''E''
      else js ''A'')"

definition heuristicKeywords :: "jsstring list" where
  "heuristicKeywords = map js
     [''kernel'', ''heuristic'', ''prompt'', ''diagram'', ''agent'', ''north star'', ''donkey'',
      ''alpha'', ''beta'', ''gamma'']"

definition heuristicNormalize :: "lowering \<Rightarrow> jsstring \<Rightarrow> normalized" where
  "heuristicNormalize toLowerCase text =
     (let firstLine = trim (hd (splitLines text));
          title' = join (js '' '') (take 8 (splitOn 32 (if firstLine \<noteq> [] then firstLine else text)));
          t = toLowerCase text;
          lane' = heuristicLane t;
          tags' = map (replaceWsRuns (js ''-'')) (filter (\<lambda>k. str_includes t k) heuristicKeywords);
          summary' = trim (replaceWsRuns (js '' '') (take 140 text))
      in defaultFrontmatter
           \<lparr> title := Some title', lane := Some lane', tags := Some (newSet tags'),
             summary := Some summary' \<rparr>)"

text \<open>
  The lane choice as the specification words it: the keyword sets are scanned in the
  order B, C, D, E, the first set with a keyword in the text gives the lane, and the
  lane is A when no set has one.
\<close>

definition spec_laneOrder :: "(string \<times> string list) list" where
  "spec_laneOrder =
     [(''B'', [''diagram'', ''graph'', ''visual'', ''schematic'', ''svg'']),
      (''C'', [''prompt'', ''rubric'', ''template'']),
      (''D'', [''schema'', ''json'', ''code'', ''task graph'', ''api'']),
      (''E'', [''insight'', ''note'', ''reflection'', ''aphorism''])]"

fun spec_firstMatch :: "(string \<times> string list) list \<Rightarrow> jsstring \<Rightarrow> jsstring" where
  "spec_firstMatch [] t = js ''A''"
| "spec_firstMatch ((l, ks) # rest) t = (if testAny ks t then js l else spec_firstMatch rest t)"

text \<open>
  \<open>enrichTags(tags, textLower)\<close>. The \<open>while\<close> loop pushes the filler until the
  array has three elements; it runs \<open>3 - length arr\<close> times.
\<close>

definition normTag :: "lowering \<Rightarrow> jsstring \<Rightarrow> jsstring" where
  "normTag toLowerCase t = replaceWsRuns (js ''-'') (trim (toLowerCase t))"

definition vocabHits :: "jsstring \<Rightarrow> jsstring list" where
  "vocabHits textLower = filter (\<lambda>t. str_includes textLower (hyphensToSpaces t)) tagVocab"

function padTags :: "jsstring list \<Rightarrow> jsstring list" where
  "padTags arr = (if length arr < 3 then padTags (arr @ [js ''artifact'']) else arr)"
  by pat_completeness auto
termination
  by (relation "measure (\<lambda>arr. 3 - length arr)") auto

declare padTags.simps [simp del]

definition enrichTags :: "lowering \<Rightarrow> jsstring list \<Rightarrow> jsstring \<Rightarrow> jsstring list" where
  "enrichTags toLowerCase tags0 textLower =
     (let set0 = newSet (map (normTag toLowerCase) tags0);
          set1 = foldl setAdd set0 (vocabHits textLower);
          arr = take 7 set1
      in padTags arr)"


section \<open>normalize-drafts: splitting a draft, the retry loop, the guard block\<close>

definition splitFrontmatter :: "jsstring \<Rightarrow> jsstring \<times> jsstring" where
  "splitFrontmatter md =
     (if startsWith md (js ''---'') then
        (case indexOfFrom md (10 # js ''---'') 3 of
           Some e \<Rightarrow> (trim (slice md 3 e), trim (sliceFrom md (e + 4)))
         | None \<Rightarrow> ([], trim md))
      else ([], trim md))"

text \<open>
  The remote variant is a capability outside the repository: for one document,
  \<open>remote k\<close> is what the call number \<open>k\<close> (counted from 0) of
  \<open>callOpenAINormalize\<close> does, either throwing (\<open>Inl\<close> the message) or returning
  the decoded object. The retry loop leaves a trace of the calls it makes and of the
  delays (in milliseconds) it sleeps. An object is truthy, so \<open>!normalized\<close> holds
  exactly when no call has returned.
\<close>

datatype event = Call | Sleep nat

type_synonym remote = "nat \<Rightarrow> jsstring + normalized"

function retryLoop :: "remote \<Rightarrow> nat \<Rightarrow> normalized option \<times> event list" where
  "retryLoop remote attempt =
     (if attempt < 3 then
        (case remote attempt of
           Inr r \<Rightarrow> (Some r, [Call])
         | Inl e \<Rightarrow>
             (let delay = 500 * 2 ^ attempt;
                  (res, tr) = retryLoop remote (attempt + 1)
              in (res, Call # Sleep delay # tr)))
      else (None, []))"
  by pat_completeness auto
termination
  by (relation "measure (\<lambda>(r, attempt). 3 - attempt)") auto

declare retryLoop.simps [simp del]

record config =
  dryRun :: bool
  apiKey :: jsstring
  forceLane :: jsstring
  maxCount :: nat

definition classify ::
  "lowering \<Rightarrow> config \<Rightarrow> remote \<Rightarrow> jsstring \<Rightarrow> normalized \<times> event list" where
  "classify toLowerCase cfg remote body =
     (if \<not> dryRun cfg \<and> apiKey cfg \<noteq> [] then
        (case retryLoop remote 0 of
           (Some r, tr) \<Rightarrow> (r, tr)
         | (None, tr) \<Rightarrow> (heuristicNormalize toLowerCase body, tr))
      else (heuristicNormalize toLowerCase body, []))"

text \<open>\<open>t.replace(/[`*_\[\]<>]/g, '')\<close>.\<close>

definition isMarkdownChar :: "cu \<Rightarrow> bool" where
  "isMarkdownChar c = (c = 96 \<or> c = 42 \<or> c = 95 \<or> c = 91 \<or> c = 93 \<or> c = 60 \<or> c = 62)"

definition stripMarkdown :: "jsstring \<Rightarrow> jsstring" where
  "stripMarkdown t = filter (\<lambda>c. \<not> isMarkdownChar c) t"

text \<open>\<open>t.replace(/\s{2,}/g, ' ')\<close>: a run of two or more white space becomes one space.\<close>

function collapseSpaces :: "jsstring \<Rightarrow> jsstring" where
  "collapseSpaces [] = []"
| "collapseSpaces (c # cs) =
     (if isSpace c \<and> cs \<noteq> [] \<and> isSpace (hd cs) then 32 # collapseSpaces (dropWhile isSpace cs)
      else c # collapseSpaces cs)"
  by pat_completeness auto
termination
  by (relation "measure length") (auto simp: length_dropWhile_le less_Suc_eq_le)

text \<open>
  \<open>titleCase\<close>: \<open>str.replace(/\w\S*/g, w => w.charAt(0).toUpperCase() + w.slice(1))\<close>.
  A match starts at a word character and runs to the next white space.
\<close>

function titleCase :: "jsstring \<Rightarrow> jsstring" where
  "titleCase [] = []"
| "titleCase (c # cs) =
     (if isWord c then
        upperCU c # takeWhile (\<lambda>x. \<not> isSpace x) cs @ titleCase (dropWhile (\<lambda>x. \<not> isSpace x) cs)
      else c # titleCase cs)"
  by pat_completeness auto
termination
  by (relation "measure length") (auto simp: length_dropWhile_le less_Suc_eq_le)

definition sanitizeTitle :: "jsstring \<Rightarrow> jsstring" where
  "sanitizeTitle t0 =
     (let t = trim t0;
          t = stripMarkdown t;
          t = collapseSpaces t;
          words = take 12 (splitWs t);
          t = join (js '' '') words
      in take 80 (titleCase t))"

text \<open>The ellipsis U+2026 that the content limit appends.\<close>

definition ellipsis :: jsstring where
  "ellipsis = [8230]"

definition limitContent :: "jsstring \<Rightarrow> jsstring" where
  "limitContent c =
     (let words = splitWs c
      in if length words > 220 then join (js '' '') (take 220 words) @ ellipsis else c)"

text \<open>
  The block of \<open>main\<close> from \<open>// Guard values\<close> to the content limit, one
  function for each of its statements, in the order of the source. A string value is
  truthy when it is present and not the empty string; an array is truthy.
\<close>

definition truthy :: "jsstring option \<Rightarrow> bool" where
  "truthy v = (case v of None \<Rightarrow> False | Some s \<Rightarrow> s \<noteq> [])"

definition forceLaneStep :: "jsstring \<Rightarrow> normalized \<Rightarrow> normalized" where
  "forceLaneStep force n =
     (if force \<noteq> [] \<and> force \<in> set allowedLanes then n\<lparr>lane := Some force\<rparr> else n)"

definition allowedLaneStep :: "normalized \<Rightarrow> normalized" where
  "allowedLaneStep n =
     (if lane n \<in> Some ` set allowedLanes then n else n\<lparr>lane := Some (js ''A'')\<rparr>)"

definition statusStep :: "normalized \<Rightarrow> normalized" where
  "statusStep n = n\<lparr>status := Some (js ''draft'')\<rparr>"

definition targetsStep :: "normalized \<Rightarrow> normalized" where
  "targetsStep n =
     (if publish_targets n = None \<or> publish_targets n = Some []
      then n\<lparr>publish_targets := Some [js ''github'']\<rparr> else n)"

definition titleStep :: "normalized \<Rightarrow> normalized" where
  "titleStep n =
     (if truthy (title n) then n\<lparr>title := Some (sanitizeTitle (the (title n)))\<rparr> else n)"

definition tagsStep :: "lowering \<Rightarrow> jsstring \<Rightarrow> normalized \<Rightarrow> normalized" where
  "tagsStep toLowerCase body n =
     n\<lparr>tags := Some (enrichTags toLowerCase (case tags n of None \<Rightarrow> [] | Some ts \<Rightarrow> ts) (toLowerCase body))\<rparr>"

definition contentStep :: "normalized \<Rightarrow> normalized" where
  "contentStep n =
     (if truthy (content n) then n\<lparr>content := Some (limitContent (the (content n)))\<rparr> else n)"

definition guardValues ::
  "lowering \<Rightarrow> jsstring \<Rightarrow> jsstring \<Rightarrow> normalized \<Rightarrow> normalized" where
  "guardValues toLowerCase force body n0 =
     contentStep (tagsStep toLowerCase body (titleStep (targetsStep (statusStep
       (allowedLaneStep (forceLaneStep force n0))))))"

section \<open>normalize-drafts: the content hash and the loop over the drafts\<close>

text \<open>
  The numbers of the hash are doubles with integral values, modelled by their values. A
  sum of two of them is the exact sum rounded to the nearest double, a tie going to the
  even significand: an integer below \<open>2^53\<close> in absolute value is a double, and
  from there on the doubles are the multiples of \<open>u\<close> from \<open>2^52 * u\<close> to
  \<open>2^53 * u\<close> for \<open>u = 2, 4, 8, ...\<close>. A sum that rounds to \<open>2^1024\<close> or
  more is an infinity, here \<open>None\<close>.
\<close>

definition roundToMultiple :: "nat \<Rightarrow> nat \<Rightarrow> nat" where
  "roundToMultiple u a =
     (let q = a div u; r = a mod u
      in if 2 * r < u \<or> (2 * r = u \<and> even q) then q * u else (q + 1) * u)"

function roundFrom :: "nat \<Rightarrow> nat \<Rightarrow> nat" where
  "roundFrom u a =
     (if u = 0 \<or> a < 2 ^ 53 * u then roundToMultiple u a else roundFrom (2 * u) a)"
  by pat_completeness auto
termination
  by (relation "measure (\<lambda>(u, a). a - u)") auto

declare roundFrom.simps [simp del]

definition addNumbers :: "int \<Rightarrow> int \<Rightarrow> int option" where
  "addNumbers x y =
     (let z = x + y
      in if \<bar>z\<bar> < 2 ^ 53 then Some z
         else (let m = roundFrom 1 (nat \<bar>z\<bar>)
               in if m < 2 ^ 1024 then Some (sgn z * int m) else None))"

text \<open>
  \<open>h << 5\<close> converts \<open>h\<close> to a signed 32-bit integer and shifts it, which wraps
  to 32 bits again; of an infinity it is 0. The two additions that follow are additions
  of numbers and do not wrap; an infinity stays one. \<open>h >>> 0\<close> is \<open>h\<close> modulo
  \<open>2^32\<close>, and 0 for an infinity; \<open>toString(16)\<close> prints it in lower-case
  hexadecimal without leading zeros.
\<close>

definition toInt32 :: "int \<Rightarrow> int" where
  "toInt32 x = (x + 2 ^ 31) mod 2 ^ 32 - 2 ^ 31"

definition shiftLeft5 :: "int \<Rightarrow> int" where
  "shiftLeft5 h = toInt32 (toInt32 h * 2 ^ 5)"

definition hashStep :: "int option \<Rightarrow> cu \<Rightarrow> int option" where
  "hashStep h c =
     (case h of
        None \<Rightarrow> None
      | Some x \<Rightarrow>
          (case addNumbers (shiftLeft5 x) x of
             None \<Rightarrow> None
           | Some y \<Rightarrow> addNumbers y (int c)))"

definition toUint32 :: "int option \<Rightarrow> nat" where
  "toUint32 h = (case h of None \<Rightarrow> 0 | Some x \<Rightarrow> nat (x mod 2 ^ 32))"

definition hexDigit :: "nat \<Rightarrow> cu" where
  "hexDigit d = (if d < 10 then 48 + d else 87 + d)"

function toStringHex :: "nat \<Rightarrow> jsstring" where
  "toStringHex n = (if n < 16 then [hexDigit n] else toStringHex (n div 16) @ [hexDigit (n mod 16)])"
  by pat_completeness auto
termination
  by (relation "measure id") auto

declare toStringHex.simps [simp del]

definition contentHash :: "jsstring \<Rightarrow> jsstring" where
  "contentHash s = toStringHex (toUint32 (foldl hashStep (Some 5381) s))"

text \<open>\<open>normalized.content || body\<close>.\<close>

definition contentOrBody :: "normalized \<Rightarrow> jsstring \<Rightarrow> jsstring" where
  "contentOrBody n body = (if truthy (content n) then the (content n) else body)"

text \<open>
  \<open>JSON.stringify\<close> of a string: the quotation mark (34) and the backslash (92)
  are escaped with a backslash, the control characters below U+0020 are written as
  backslash and \<open>b\<close>, \<open>t\<close>, \<open>n\<close>, \<open>f\<close>, \<open>r\<close> or \<open>u00XX\<close>, and a
  surrogate that has no partner is written as backslash and \<open>uXXXX\<close>; everything else
  stands for itself.
\<close>

definition hex4 :: "nat \<Rightarrow> jsstring" where
  "hex4 n = [hexDigit (n div 4096 mod 16), hexDigit (n div 256 mod 16),
             hexDigit (n div 16 mod 16), hexDigit (n mod 16)]"

definition isHighSurrogate :: "cu \<Rightarrow> bool" where
  "isHighSurrogate c = (55296 \<le> c \<and> c \<le> 56319)"

definition isLowSurrogate :: "cu \<Rightarrow> bool" where
  "isLowSurrogate c = (56320 \<le> c \<and> c \<le> 57343)"

definition quoteUnit :: "cu \<Rightarrow> jsstring" where
  "quoteUnit c =
     (if c = 34 then [92, 34] else if c = 92 then [92, 92]
      else if c = 8 then 92 # js ''b'' else if c = 9 then 92 # js ''t''
      else if c = 10 then 92 # js ''n'' else if c = 12 then 92 # js ''f''
      else if c = 13 then 92 # js ''r''
      else if c < 32 \<or> isHighSurrogate c \<or> isLowSurrogate c then 92 # js ''u'' @ hex4 c
      else [c])"

fun quoteUnits :: "jsstring \<Rightarrow> jsstring" where
  "quoteUnits [] = []"
| "quoteUnits [c] = quoteUnit c"
| "quoteUnits (c # d # cs) =
     (if isHighSurrogate c \<and> isLowSurrogate d then c # d # quoteUnits cs
      else quoteUnit c @ quoteUnits (d # cs))"

definition stringifyString :: "jsstring \<Rightarrow> jsstring" where
  "stringifyString s = 34 # quoteUnits s @ [34]"

text \<open>\<open>JSON.stringify\<close> of an array of strings.\<close>

definition stringifyArray :: "jsstring list \<Rightarrow> jsstring" where
  "stringifyArray xs = 91 # join (js '','') (map stringifyString xs) @ [93]"

definition orElse :: "jsstring option \<Rightarrow> jsstring \<Rightarrow> jsstring" where
  "orElse v d = (if truthy v then the v else d)"

definition toFrontmatter :: "normalized \<Rightarrow> jsstring" where
  "toFrontmatter obj =
     join [10]
       [js ''---'',
        js ''title: '' @ stringifyString (orElse (title obj) []),
        js ''lane: '' @ stringifyString (orElse (lane obj) (js ''A'')),
        js ''status: '' @ stringifyString (orElse (status obj) (js ''draft'')),
        js ''tags: '' @ stringifyArray (case tags obj of None \<Rightarrow> [] | Some ts \<Rightarrow> ts),
        js ''source_refs: []'',
        js ''summary: '' @ stringifyString (orElse (summary obj) []),
        js ''publish_targets: '' @
          stringifyArray (case publish_targets obj of None \<Rightarrow> [js ''github''] | Some ps \<Rightarrow> ps),
        js ''---'',
        []]"

text \<open>
  One draft: its file name, its text, and what the remote variant does when called for
  it. The state of a run: the set of hashes seen, the files written into the output
  directory (name and text, in the order of writing) and the lines logged.
\<close>

record draft =
  fileName :: jsstring
  raw :: jsstring
  remoteOf :: remote

datatype logLine = SkipDuplicate jsstring | Normalized jsstring jsstring

record run =
  seenHashes :: "jsstring list"
  written :: "(jsstring \<times> jsstring) list"
  logged :: "logLine list"
  trace :: "event list"

definition endsWith :: "jsstring \<Rightarrow> jsstring \<Rightarrow> bool" where
  "endsWith s k = startsWith (rev s) (rev k)"

text \<open>\<open>f.replace(/\.md$/, '') + '.norm.md'\<close>.\<close>

definition outNameOf :: "jsstring \<Rightarrow> jsstring" where
  "outNameOf f = (if endsWith f (js ''.md'') then take (length f - 3) f else f) @ js ''.norm.md''"

text \<open>The record that the guard block leaves for a draft, and the string it hashes.\<close>

definition normalizeDraft ::
  "lowering \<Rightarrow> config \<Rightarrow> draft \<Rightarrow> normalized \<times> jsstring \<times> event list" where
  "normalizeDraft toLowerCase cfg d =
     (let (fmRaw, body) = splitFrontmatter (raw d);
          (n0, tr) = classify toLowerCase cfg (remoteOf d) body
      in (guardValues toLowerCase (forceLane cfg) body n0, body, tr))"

text \<open>
  The text of the file that \<open>main\<close> writes for a record: \<open>fm + bodyOut\<close>. The
  validator reads the text that was written: the encoding of the file is not modelled.
\<close>

definition persistedText :: "normalized \<Rightarrow> jsstring \<Rightarrow> jsstring" where
  "persistedText n body = toFrontmatter n @ (trim (contentOrBody n body) @ [10])"

definition processDraft :: "lowering \<Rightarrow> config \<Rightarrow> run \<Rightarrow> draft \<Rightarrow> run" where
  "processDraft toLowerCase cfg st d =
     (let (n, body, tr) = normalizeDraft toLowerCase cfg d;
          st = st\<lparr>trace := trace st @ tr\<rparr>;
          hash = contentHash (contentOrBody n body)
      in if hash \<in> set (seenHashes st)
         then st\<lparr>logged := logged st @ [SkipDuplicate (fileName d)]\<rparr>
         else
           (let outName = outNameOf (fileName d)
            in st\<lparr>seenHashes := setAdd (seenHashes st) hash,
                   written := written st @ [(outName, persistedText n body)],
                   logged := logged st @ [Normalized (fileName d) outName]\<rparr>))"

definition emptyRun :: run where
  "emptyRun = \<lparr> seenHashes = [], written = [], logged = [], trace = [] \<rparr>"

definition mainLoop :: "lowering \<Rightarrow> config \<Rightarrow> draft list \<Rightarrow> run" where
  "mainLoop toLowerCase cfg files = foldl (processDraft toLowerCase cfg) emptyRun files"

definition main :: "lowering \<Rightarrow> config \<Rightarrow> draft list \<Rightarrow> run" where
  "main toLowerCase cfg dir =
     mainLoop toLowerCase cfg (take (maxCount cfg) (filter (\<lambda>d. endsWith (fileName d) (js ''.md'')) dir))"

text \<open>
  The string of a draft that the specification takes the fingerprint of: the sanitized
  content of the record, or the body of the draft when the record has no content (none,
  or the empty string).
\<close>

definition spec_sanitizedContent :: "lowering \<Rightarrow> config \<Rightarrow> draft \<Rightarrow> jsstring" where
  "spec_sanitizedContent toLowerCase cfg d =
     (case content (fst (normalizeDraft toLowerCase cfg d)) of
        None \<Rightarrow> snd (splitFrontmatter (raw d))
      | Some c \<Rightarrow> if c = [] then snd (splitFrontmatter (raw d)) else c)"

text \<open>
  The fingerprint as the specification words it: the rolling hash
  \<open>h = h * 33 + charCode\<close> from 5381, reduced to 32 bits, in hexadecimal.
\<close>

definition spec_rollingHash :: "jsstring \<Rightarrow> int" where
  "spec_rollingHash s = foldl (\<lambda>h c. h * 33 + int c) 5381 s"

definition spec_fingerprint :: "jsstring \<Rightarrow> jsstring" where
  "spec_fingerprint s = toStringHex (nat (spec_rollingHash s mod 2 ^ 32))"

text \<open>
  The step of the content hash with exact sums, which is the step of the code as long
  as no sum rounds.
\<close>

definition exactStep :: "int \<Rightarrow> cu \<Rightarrow> int" where
  "exactStep h c = (shiftLeft5 h + h) + int c"

text \<open>
  A string of the runtime: every code unit is below \<open>2^16\<close>.
\<close>

definition isString :: "jsstring \<Rightarrow> bool" where
  "isString s = list_all (\<lambda>c. c < 65536) s"

text \<open>
  What the specification asks of the lower-casing of the runtime in its example of the
  lane choice: a run of the letters \<open>a-z\<close> that occurs in a text occurs in the
  lower-cased text.
\<close>

definition keepsLowerCaseAscii :: "lowering \<Rightarrow> bool" where
  "keepsLowerCaseAscii toLowerCase =
     (\<forall>s k. list_all (\<lambda>c. 97 \<le> c \<and> c \<le> 122) k \<longrightarrow> str_includes s k \<longrightarrow>
        str_includes (toLowerCase s) k)"

section \<open>JSON values and \<open>JSON.parse\<close>\<close>

text \<open>
  The values that \<open>JSON.parse\<close> returns. A number is kept as the text it was read
  from: how the runtime rounds a number to a double and prints it again is floating
  point and is not modelled. An object keeps its members in the order of the text.
\<close>

datatype json =
    JNull
  | JBool bool
  | JNum jsstring
  | JStr jsstring
  | JArr "json list"
  | JObj "(jsstring \<times> json) list"

datatype token =
    TLBrace | TRBrace | TLBrack | TRBrack | TColon | TComma
  | TString jsstring | TNumber jsstring | TTrue | TFalse | TNull

definition isDigit :: "cu \<Rightarrow> bool" where
  "isDigit c = (48 \<le> c \<and> c \<le> 57)"

definition hexVal :: "cu \<Rightarrow> nat option" where
  "hexVal c =
     (if 48 \<le> c \<and> c \<le> 57 then Some (c - 48)
      else if 97 \<le> c \<and> c \<le> 102 then Some (c - 87)
      else if 65 \<le> c \<and> c \<le> 70 then Some (c - 55)
      else None)"

definition decodeHex4 :: "cu \<Rightarrow> cu \<Rightarrow> cu \<Rightarrow> cu \<Rightarrow> cu option" where
  "decodeHex4 a b c d =
     (case (hexVal a, hexVal b, hexVal c, hexVal d) of
        (Some x, Some y, Some z, Some w) \<Rightarrow> Some (x * 4096 + y * 256 + z * 16 + w)
      | _ \<Rightarrow> None)"

text \<open>The code unit that a backslash and \<open>e\<close> stand for in a JSON string.\<close>

definition unescape :: "cu \<Rightarrow> cu option" where
  "unescape e =
     (if e = 34 then Some 34 else if e = 92 then Some 92 else if e = 47 then Some 47
      else if e = 98 then Some 8 else if e = 102 then Some 12 else if e = 110 then Some 10
      else if e = 114 then Some 13 else if e = 116 then Some 9 else None)"

definition consFst :: "'a \<Rightarrow> ('a list \<times> 'b) option \<Rightarrow> ('a list \<times> 'b) option" where
  "consFst x r = map_option (\<lambda>(s, rest). (x # s, rest)) r"

definition appendFst :: "'a list \<Rightarrow> ('a list \<times> 'b) option \<Rightarrow> ('a list \<times> 'b) option" where
  "appendFst xs r = map_option (\<lambda>(s, rest). (xs @ s, rest)) r"

text \<open>
  The rest of a string literal after its opening quotation mark: the string it denotes
  and the text after the closing quotation mark. A control character below U+0020 may
  not stand in a literal.
\<close>

fun lexStr :: "jsstring \<Rightarrow> (jsstring \<times> jsstring) option" where
  "lexStr [] = None"
| "lexStr [c] = (if c = 34 then Some ([], []) else None)"
| "lexStr (c # e # cs) =
     (if c = 34 then Some ([], e # cs)
      else if c = 92 then
        (if e = 117 then
           (case cs of
              h1 # h2 # h3 # h4 # rest \<Rightarrow>
                (case decodeHex4 h1 h2 h3 h4 of
                   Some u \<Rightarrow> consFst u (lexStr rest)
                 | None \<Rightarrow> None)
            | _ \<Rightarrow> None)
         else
           (case unescape e of
              Some x \<Rightarrow> consFst x (lexStr cs)
            | None \<Rightarrow> None))
      else if c < 32 then None
      else consFst c (lexStr (e # cs)))"

text \<open>
  A number: an optional minus, \<open>0\<close> or a digit from 1 to 9 and more digits, an
  optional fraction and an optional exponent. The result is its text and what follows.
\<close>

definition lexDigits :: "jsstring \<Rightarrow> (jsstring \<times> jsstring) option" where
  "lexDigits s =
     (if takeWhile isDigit s = [] then None else Some (takeWhile isDigit s, dropWhile isDigit s))"

definition lexInt :: "jsstring \<Rightarrow> (jsstring \<times> jsstring) option" where
  "lexInt s = (case s of [] \<Rightarrow> None | c # cs \<Rightarrow> if c = 48 then Some ([48], cs) else lexDigits s)"

definition lexFrac :: "jsstring \<Rightarrow> (jsstring \<times> jsstring) option" where
  "lexFrac s =
     (case s of
        [] \<Rightarrow> Some ([], [])
      | c # cs \<Rightarrow> if c = 46 then appendFst [46] (lexDigits cs) else Some ([], s))"

definition lexExp :: "jsstring \<Rightarrow> (jsstring \<times> jsstring) option" where
  "lexExp s =
     (case s of
        [] \<Rightarrow> Some ([], [])
      | c # cs \<Rightarrow>
          if c = 101 \<or> c = 69 then
            (case cs of
               [] \<Rightarrow> None
             | d # ds \<Rightarrow>
                 if d = 43 \<or> d = 45 then appendFst [c, d] (lexDigits ds)
                 else appendFst [c] (lexDigits cs))
          else Some ([], s))"

definition lexNumber :: "jsstring \<Rightarrow> (jsstring \<times> jsstring) option" where
  "lexNumber s =
     (let (sgn, s1) = (case s of [] \<Rightarrow> ([], []) | c # cs \<Rightarrow> if c = 45 then ([45], cs) else ([], s))
      in case lexInt s1 of
           None \<Rightarrow> None
         | Some (i, s2) \<Rightarrow>
             (case lexFrac s2 of
                None \<Rightarrow> None
              | Some (f, s3) \<Rightarrow>
                  (case lexExp s3 of
                     None \<Rightarrow> None
                   | Some (e, s4) \<Rightarrow> Some (sgn @ i @ f @ e, s4))))"

definition consTok :: "token \<Rightarrow> token list option \<Rightarrow> token list option" where
  "consTok t r = map_option ((#) t) r"

lemma lexStr_shorter: "lexStr cs = Some (s, rest) \<Longrightarrow> length rest \<le> length cs"
proof (induction cs arbitrary: s rest rule: lexStr.induct)
  case 1
  then show ?case by simp
next
  case (2 c)
  then show ?case by (simp split: if_splits)
next
  case (3 c e cs)
  show ?case
  proof (cases "c = 34")
    case True
    with 3(4) show ?thesis by simp
  next
    case notq: False
    show ?thesis
    proof (cases "c = 92")
      case bs: True
      show ?thesis
      proof (cases "e = 117")
        case True
        with 3(4) notq bs obtain h1 h2 h3 h4 r u s'
          where cs: "cs = h1 # h2 # h3 # h4 # r" and d: "decodeHex4 h1 h2 h3 h4 = Some u"
            and l: "lexStr r = Some (s', rest)"
          by (auto simp: consFst_def split: list.splits option.splits)
        have "length rest \<le> length r"
          using 3(1) notq bs True cs d l by blast
        then show ?thesis using cs by simp
      next
        case False
        with 3(4) notq bs obtain x s'
          where u: "unescape e = Some x" and l: "lexStr cs = Some (s', rest)"
          by (auto simp: consFst_def split: option.splits)
        have "length rest \<le> length cs"
          using 3(2) notq bs False u l by blast
        then show ?thesis by simp
      qed
    next
      case False
      with 3(4) notq obtain s' where c: "\<not> c < 32" and l: "lexStr (e # cs) = Some (s', rest)"
        by (auto simp: consFst_def split: if_splits)
      have "length rest \<le> length (e # cs)"
        using 3(3) notq False c l by blast
      then show ?thesis by simp
    qed
  qed
qed

lemma lexDigits_shorter: "lexDigits s = Some (d, rest) \<Longrightarrow> length rest < length s"
proof -
  assume a: "lexDigits s = Some (d, rest)"
  then have n: "takeWhile isDigit s \<noteq> []" and r: "rest = dropWhile isDigit s"
    by (auto simp: lexDigits_def split: if_splits)
  from n have "0 < length (takeWhile isDigit s)" by (rule length_greater_0_conv[THEN iffD2])
  moreover have "length (takeWhile isDigit s) + length (dropWhile isDigit s) = length s"
    by (metis length_append takeWhile_dropWhile_id)
  ultimately have "length (dropWhile isDigit s) < length s" by linarith
  then show ?thesis by (simp only: r)
qed

lemma lexFrac_shorter: "lexFrac s = Some (f, rest) \<Longrightarrow> length rest \<le> length s"
  by (auto simp: lexFrac_def appendFst_def split: list.splits if_splits
      dest!: lexDigits_shorter)

lemma lexExp_shorter: "lexExp s = Some (e, rest) \<Longrightarrow> length rest \<le> length s"
  by (auto simp: lexExp_def appendFst_def split: list.splits if_splits
      dest!: lexDigits_shorter)

lemma lexInt_shorter: "lexInt s = Some (i, rest) \<Longrightarrow> length rest < length s"
  by (auto simp: lexInt_def split: list.splits if_splits dest!: lexDigits_shorter)

lemma lexNumber_shorter: "lexNumber s = Some (n, rest) \<Longrightarrow> length rest < length s"
proof -
  assume a: "lexNumber s = Some (n, rest)"
  define s1 where "s1 = (case s of [] \<Rightarrow> [] | c # cs \<Rightarrow> if c = 45 then cs else s)"
  have s1: "length s1 \<le> length s" by (simp add: s1_def split: list.splits)
  from a obtain i s2 f s3 e where i: "lexInt s1 = Some (i, s2)" and f: "lexFrac s2 = Some (f, s3)"
    and e: "lexExp s3 = Some (e, rest)"
    by (auto simp: lexNumber_def s1_def split: list.splits if_splits option.splits)
  from lexInt_shorter[OF i] lexFrac_shorter[OF f] lexExp_shorter[OF e] s1
  show ?thesis by simp
qed

text \<open>
  The tokens of a JSON text. White space between tokens is space, TAB, LF and CR.
\<close>

function tokenize :: "jsstring \<Rightarrow> token list option" where
  "tokenize [] = Some []"
| "tokenize (c # cs) =
     (if c = 32 \<or> c = 9 \<or> c = 10 \<or> c = 13 then tokenize cs
      else if c = 123 then consTok TLBrace (tokenize cs)
      else if c = 125 then consTok TRBrace (tokenize cs)
      else if c = 91 then consTok TLBrack (tokenize cs)
      else if c = 93 then consTok TRBrack (tokenize cs)
      else if c = 58 then consTok TColon (tokenize cs)
      else if c = 44 then consTok TComma (tokenize cs)
      else if c = 34 then
        (case lexStr cs of
           None \<Rightarrow> None
         | Some (s, rest) \<Rightarrow> consTok (TString s) (tokenize rest))
      else if c = 45 \<or> isDigit c then
        (case lexNumber (c # cs) of
           None \<Rightarrow> None
         | Some (n, rest) \<Rightarrow> consTok (TNumber n) (tokenize rest))
      else if startsWith (c # cs) (js ''true'') then consTok TTrue (tokenize (drop 3 cs))
      else if startsWith (c # cs) (js ''false'') then consTok TFalse (tokenize (drop 4 cs))
      else if startsWith (c # cs) (js ''null'') then consTok TNull (tokenize (drop 3 cs))
      else None)"
  by pat_completeness auto
termination
proof (relation "measure length", goal_cases)
  case 1
  then show ?case by simp
next
  case (9 c cs x2 x y)
  then show ?case using lexStr_shorter[of cs x y] by simp
next
  case (10 c cs x2 x y)
  then show ?case using lexNumber_shorter[of "c # cs" x y] by simp
qed simp_all

declare lexStr.simps [simp del]

text \<open>
  The parser reads the tokens from left to right and keeps the arrays and objects that
  are still open on a stack.
\<close>

datatype frame =
    FArr "json list"
  | FObj "(jsstring \<times> json) list"
  | FKey "(jsstring \<times> json) list" jsstring

datatype mode = MValue | MValueOrClose | MKeyOrClose | MKey | MColon | MAfter | MDone json

type_synonym pstate = "mode \<times> frame list"

definition pushValue :: "json \<Rightarrow> frame list \<Rightarrow> pstate option" where
  "pushValue v st =
     (case st of
        [] \<Rightarrow> Some (MDone v, [])
      | FArr xs # rest \<Rightarrow> Some (MAfter, FArr (xs @ [v]) # rest)
      | FKey ms k # rest \<Rightarrow> Some (MAfter, FObj (ms @ [(k, v)]) # rest)
      | FObj ms # rest \<Rightarrow> None)"

definition startValue :: "token \<Rightarrow> frame list \<Rightarrow> pstate option" where
  "startValue t st =
     (case t of
        TString s \<Rightarrow> pushValue (JStr s) st
      | TNumber n \<Rightarrow> pushValue (JNum n) st
      | TTrue \<Rightarrow> pushValue (JBool True) st
      | TFalse \<Rightarrow> pushValue (JBool False) st
      | TNull \<Rightarrow> pushValue JNull st
      | TLBrack \<Rightarrow> Some (MValueOrClose, FArr [] # st)
      | TLBrace \<Rightarrow> Some (MKeyOrClose, FObj [] # st)
      | _ \<Rightarrow> None)"

definition closeArr :: "frame list \<Rightarrow> pstate option" where
  "closeArr st = (case st of FArr xs # rest \<Rightarrow> pushValue (JArr xs) rest | _ \<Rightarrow> None)"

definition closeObj :: "frame list \<Rightarrow> pstate option" where
  "closeObj st = (case st of FObj ms # rest \<Rightarrow> pushValue (JObj ms) rest | _ \<Rightarrow> None)"

definition startKey :: "token \<Rightarrow> frame list \<Rightarrow> pstate option" where
  "startKey t st =
     (case t of
        TString k \<Rightarrow> (case st of FObj ms # rest \<Rightarrow> Some (MColon, FKey ms k # rest) | _ \<Rightarrow> None)
      | _ \<Rightarrow> None)"

fun pstep :: "pstate \<Rightarrow> token \<Rightarrow> pstate option" where
  "pstep (MValue, st) t = startValue t st"
| "pstep (MValueOrClose, st) t = (if t = TRBrack then closeArr st else startValue t st)"
| "pstep (MKeyOrClose, st) t = (if t = TRBrace then closeObj st else startKey t st)"
| "pstep (MKey, st) t = startKey t st"
| "pstep (MColon, st) t = (if t = TColon then Some (MValue, st) else None)"
| "pstep (MAfter, st) t =
     (case st of
        FArr xs # rest \<Rightarrow>
          (if t = TComma then Some (MValue, st) else if t = TRBrack then closeArr st else None)
      | FObj ms # rest \<Rightarrow>
          (if t = TComma then Some (MKey, st) else if t = TRBrace then closeObj st else None)
      | _ \<Rightarrow> None)"
| "pstep (MDone v, st) t = None"

fun prun :: "pstate \<Rightarrow> token list \<Rightarrow> pstate option" where
  "prun s [] = Some s"
| "prun s (t # ts) = (case pstep s t of None \<Rightarrow> None | Some s' \<Rightarrow> prun s' ts)"

text \<open>\<open>JSON.parse(text)\<close>; \<open>None\<close> is the \<open>SyntaxError\<close> that it throws.\<close>

definition JSON_parse :: "jsstring \<Rightarrow> json option" where
  "JSON_parse text =
     (case tokenize text of
        None \<Rightarrow> None
      | Some ts \<Rightarrow>
          (case prun (MValue, []) ts of
             Some (MDone v, []) \<Rightarrow> Some v
           | _ \<Rightarrow> None))"

section \<open>validate-artifacts\<close>

text \<open>
  \<open>String(v)\<close>. An array prints its elements with commas between them, \<open>null\<close>
  as nothing; an object prints as \<open>[object Object]\<close>. A number is printed as it is
  written in the file. The records that the pipeline writes hold strings and arrays of
  strings only; a number that \<open>String\<close> prints in another way than the file writes
  it, and an object with a property \<open>toString\<close> of its own, for which \<open>String\<close>
  throws, are outside this model.
\<close>

fun toStr :: "json \<Rightarrow> jsstring" where
  "toStr JNull = js ''null''"
| "toStr (JBool b) = (if b then js ''true'' else js ''false'')"
| "toStr (JNum n) = n"
| "toStr (JStr s) = s"
| "toStr (JArr xs) = join (js '','') (map (\<lambda>x. if x = JNull then [] else toStr x) xs)"
| "toStr (JObj ms) = js ''[object Object]''"

text \<open>
  The truth value of a property that may be missing. A number is falsy when it is zero:
  when its text has no digit from 1 to 9 before the exponent.
\<close>

definition numberIsZero :: "jsstring \<Rightarrow> bool" where
  "numberIsZero n = (\<not> list_ex (\<lambda>c. 49 \<le> c \<and> c \<le> 57) (takeWhile (\<lambda>c. c \<noteq> 101 \<and> c \<noteq> 69) n))"

definition jsTruthy :: "json option \<Rightarrow> bool" where
  "jsTruthy v =
     (case v of
        None \<Rightarrow> False
      | Some JNull \<Rightarrow> False
      | Some (JBool b) \<Rightarrow> b
      | Some (JNum n) \<Rightarrow> \<not> numberIsZero n
      | Some (JStr s) \<Rightarrow> s \<noteq> []
      | Some (JArr xs) \<Rightarrow> True
      | Some (JObj ms) \<Rightarrow> True)"

text \<open>\<open>v || ''\<close>.\<close>

definition orEmpty :: "json option \<Rightarrow> json" where
  "orEmpty v = (if jsTruthy v then the v else JStr [])"

text \<open>
  The object \<open>fm\<close> that \<open>parseFrontmatter\<close> fills, with its own properties
  and its prototype (\<open>None\<close> is the prototype of objects). An assignment to the
  key \<open>__proto__\<close> that reaches the accessor of the prototype of objects does not
  create a property: it replaces the prototype when the value is an object, an array
  or \<open>null\<close>, and does nothing otherwise. The assignment does not reach the accessor,
  and is an assignment like any other, once the prototype is \<open>null\<close>, or is an
  object with a property \<open>__proto__\<close> of its own (which \<open>JSON.parse\<close> creates
  for that key), or \<open>fm\<close> has got such a property. A property that \<open>fm\<close>
  lacks is looked up in the prototype. The scripts look up the six required keys only,
  which the prototypes of objects and of arrays do not have.
\<close>

record fmObject =
  own :: "jsstring \<rightharpoonup> json"
  proto :: "json option"

definition emptyFm :: fmObject where
  "emptyFm = \<lparr> own = Map.empty, proto = None \<rparr>"

definition reachesProtoSetter :: "fmObject \<Rightarrow> bool" where
  "reachesProtoSetter fm =
     (own fm (js ''__proto__'') = None \<and>
      (case proto fm of
         Some JNull \<Rightarrow> False
       | Some (JObj ms) \<Rightarrow> js ''__proto__'' \<notin> fst ` set ms
       | _ \<Rightarrow> True))"

definition setProp :: "fmObject \<Rightarrow> jsstring \<Rightarrow> json \<Rightarrow> fmObject" where
  "setProp fm k v =
     (if k = js ''__proto__'' \<and> reachesProtoSetter fm then
        (case v of
           JObj ms \<Rightarrow> fm\<lparr>proto := Some v\<rparr>
         | JArr xs \<Rightarrow> fm\<lparr>proto := Some v\<rparr>
         | JNull \<Rightarrow> fm\<lparr>proto := Some v\<rparr>
         | _ \<Rightarrow> fm)
      else fm\<lparr>own := (own fm)(k \<mapsto> v)\<rparr>)"

definition getProp :: "fmObject \<Rightarrow> jsstring \<Rightarrow> json option" where
  "getProp fm k =
     (case own fm k of
        Some v \<Rightarrow> Some v
      | None \<Rightarrow> (case proto fm of Some (JObj ms) \<Rightarrow> map_of (rev ms) k | _ \<Rightarrow> None))"

text \<open>
  \<open>line.match(/^([a-zA-Z_]+):\s*(.*)$/)\<close>: the key is the run of letters and
  underscores at the start of the line, a colon follows it, and the value is what
  follows the white space after the colon. The dot does not match LF, CR, U+2028 and
  U+2029, so a line with one of them in the value does not match.
\<close>

definition isKeyChar :: "cu \<Rightarrow> bool" where
  "isKeyChar c = ((65 \<le> c \<and> c \<le> 90) \<or> (97 \<le> c \<and> c \<le> 122) \<or> c = 95)"

definition isLineTerminator :: "cu \<Rightarrow> bool" where
  "isLineTerminator c = (c = 10 \<or> c = 13 \<or> c = 8232 \<or> c = 8233)"

definition matchKeyValue :: "jsstring \<Rightarrow> (jsstring \<times> jsstring) option" where
  "matchKeyValue line =
     (let key = takeWhile isKeyChar line;
          rest = dropWhile isKeyChar line
      in case rest of
           [] \<Rightarrow> None
         | c # after \<Rightarrow>
             if key \<noteq> [] \<and> c = 58 \<and> \<not> list_ex isLineTerminator (dropWhile isSpace after)
             then Some (key, dropWhile isSpace after)
             else None)"

text \<open>\<open>val.replace(/^"|"$/g, '')\<close>.\<close>

definition stripQuotes :: "jsstring \<Rightarrow> jsstring" where
  "stripQuotes v =
     (let v1 = (case v of [] \<Rightarrow> [] | c # cs \<Rightarrow> if c = 34 then cs else v)
      in if v1 \<noteq> [] \<and> last v1 = 34 then butlast v1 else v1)"

definition parseLine :: "fmObject \<Rightarrow> jsstring \<Rightarrow> fmObject" where
  "parseLine fm line =
     (case matchKeyValue line of
        None \<Rightarrow> fm
      | Some (key, val) \<Rightarrow>
          setProp fm key (case JSON_parse val of Some v \<Rightarrow> v | None \<Rightarrow> JStr (stripQuotes val)))"

definition parseLines :: "jsstring \<Rightarrow> fmObject" where
  "parseLines fmRaw = foldl parseLine emptyFm (splitLines fmRaw)"

definition parseFrontmatter :: "jsstring \<Rightarrow> fmObject \<times> jsstring" where
  "parseFrontmatter md =
     (if \<not> startsWith md (js ''---'') then (emptyFm, trim md)
      else
        (case indexOfFrom md (10 # js ''---'') 3 of
           None \<Rightarrow> (emptyFm, trim md)
         | Some e \<Rightarrow> (parseLines (trim (slice md 3 e)), trim (sliceFrom md (e + 4)))))"

definition reqKeys :: "jsstring list" where
  "reqKeys = map js [''title'', ''lane'', ''status'', ''tags'', ''summary'', ''publish_targets'']"

definition allowedStatus :: "jsstring list" where
  "allowedStatus = [js ''draft'', js ''publish'']"

definition allowedTargets :: "jsstring list" where
  "allowedTargets = [js ''twitter'', js ''github'', js ''image'', js ''gist'']"

text \<open>\<open>/^[a-z0-9-]{1,30}$/\<close>.\<close>

definition isSlugChar :: "cu \<Rightarrow> bool" where
  "isSlugChar c = ((97 \<le> c \<and> c \<le> 122) \<or> (48 \<le> c \<and> c \<le> 57) \<or> c = 45)"

definition isSlug :: "jsstring \<Rightarrow> bool" where
  "isSlug s = (1 \<le> length s \<and> length s \<le> 30 \<and> list_all isSlugChar s)"

definition arrayOf :: "json option \<Rightarrow> json list" where
  "arrayOf v = (case v of Some (JArr xs) \<Rightarrow> xs | _ \<Rightarrow> [])"

definition errIf :: "bool \<Rightarrow> jsstring \<Rightarrow> jsstring list" where
  "errIf b msg = (if b then [msg] else [])"

text \<open>
  \<open>validateFile\<close>: the list \<open>errs\<close> that it returns, in the order of the pushes.
\<close>

definition titleErrors :: "fmObject \<Rightarrow> jsstring list" where
  "titleErrors fm =
     (let title = trim (toStr (orEmpty (getProp fm (js ''title''))));
          wordCount = length (filter (\<lambda>w. w \<noteq> []) (splitWs title))
      in errIf (title = []) (js ''title is empty'') @
         errIf (length title > 80) (js ''title exceeds 80 chars'') @
         errIf (wordCount > 12) (js ''title exceeds 12 words'') @
         errIf (list_ex isMarkdownChar title) (js ''title contains markdown characters''))"

definition laneErrors :: "fmObject \<Rightarrow> jsstring list" where
  "laneErrors fm =
     (let lane = filter (\<lambda>c. c \<noteq> 34) (toStr (orEmpty (getProp fm (js ''lane''))))
      in errIf (lane \<notin> set allowedLanes) (js ''invalid lane: '' @ lane))"

definition statusErrors :: "fmObject \<Rightarrow> jsstring list" where
  "statusErrors fm =
     (let status = filter (\<lambda>c. c \<noteq> 34) (toStr (orEmpty (getProp fm (js ''status''))))
      in errIf (status \<notin> set allowedStatus) (js ''invalid status: '' @ status))"

definition tagErrors :: "fmObject \<Rightarrow> jsstring list" where
  "tagErrors fm =
     (let tags = arrayOf (getProp fm (js ''tags''));
          badTags = filter (\<lambda>t. \<not> isSlug (toStr t)) tags
      in errIf (tags = []) (js ''tags empty'') @
         errIf (length tags > 10) (js ''too many tags (>10)'') @
         errIf (badTags \<noteq> []) (js ''bad tag slugs: '' @ toStr (JArr badTags)))"

definition targetErrors :: "fmObject \<Rightarrow> jsstring list" where
  "targetErrors fm =
     (let pub = arrayOf (getProp fm (js ''publish_targets''));
          badTargets = filter (\<lambda>t. toStr t \<notin> set allowedTargets) pub
      in errIf (pub = []) (js ''publish_targets empty'') @
         errIf (badTargets \<noteq> []) (js ''invalid publish_targets: '' @ toStr (JArr badTargets)))"

definition summaryErrors :: "fmObject \<Rightarrow> jsstring list" where
  "summaryErrors fm =
     (let summary = trim (toStr (orEmpty (getProp fm (js ''summary''))))
      in errIf (summary = []) (js ''summary empty'') @
         errIf (length summary > 240) (js ''summary exceeds 240 chars''))"

definition bodyErrors :: "jsstring \<Rightarrow> bool \<Rightarrow> jsstring list" where
  "bodyErrors body strictMode =
     (let bodyLen = length (trim body)
      in errIf (bodyLen < 20) (js ''content body too short'') @
         errIf (strictMode \<and> bodyLen > 6000) (js ''content body too long (>6000 chars)''))"

definition validateFile :: "jsstring \<Rightarrow> bool \<Rightarrow> jsstring list" where
  "validateFile text strictMode =
     (let (fm, body) = parseFrontmatter text
      in map (\<lambda>k. js ''missing frontmatter key: '' @ k) (filter (\<lambda>k. getProp fm k = None) reqKeys) @
         titleErrors fm @ laneErrors fm @ statusErrors fm @ tagErrors fm @ targetErrors fm @
         summaryErrors fm @ bodyErrors body strictMode)"

section \<open>The record schema of the specification\<close>

text \<open>
  A valid ArtifactRecord as section 3 of the specification words it: a title of at most
  80 characters and 12 words without markup characters, and not empty; a lane out of
  five; a status out of two; between 3 and 10 tags that are slugs; a summary that is
  not empty and has at most 240 characters; at least one publish target, each out of
  four. Every field is present.
\<close>

definition wordCount :: "jsstring \<Rightarrow> nat" where
  "wordCount s = length (filter (\<lambda>w. w \<noteq> []) (splitWs s))"

definition spec_validRecord :: "normalized \<Rightarrow> bool" where
  "spec_validRecord r =
     (case (title r, lane r, status r, tags r, source_refs r, summary r, publish_targets r) of
        (Some t, Some l, Some st, Some ts, Some refs, Some sm, Some ps) \<Rightarrow>
          trim t \<noteq> [] \<and> length t \<le> 80 \<and> wordCount t \<le> 12 \<and> \<not> list_ex isMarkdownChar t \<and>
          l \<in> set allowedLanes \<and> st \<in> set allowedStatus \<and>
          3 \<le> length ts \<and> length ts \<le> 10 \<and> list_all isSlug ts \<and>
          trim sm \<noteq> [] \<and> length sm \<le> 240 \<and>
          ps \<noteq> [] \<and> list_all (\<lambda>p. p \<in> set allowedTargets) ps
      | _ \<Rightarrow> False)"

text \<open>
  The fields of a record as JSON values under their keys, and the round trip: every
  field is found again, with its value, in what \<open>parseFrontmatter\<close> reads from the
  persisted text of the record.
\<close>

definition recordFields :: "normalized \<Rightarrow> (jsstring \<times> json option) list" where
  "recordFields r =
     [(js ''title'', map_option JStr (title r)),
      (js ''lane'', map_option JStr (lane r)),
      (js ''status'', map_option JStr (status r)),
      (js ''tags'', map_option (\<lambda>ts. JArr (map JStr ts)) (tags r)),
      (js ''source_refs'', map_option (\<lambda>ts. JArr (map JStr ts)) (source_refs r)),
      (js ''summary'', map_option JStr (summary r)),
      (js ''publish_targets'', map_option (\<lambda>ts. JArr (map JStr ts)) (publish_targets r))]"

definition spec_roundTrip :: "normalized \<Rightarrow> jsstring \<Rightarrow> bool" where
  "spec_roundTrip r body =
     list_all (\<lambda>(k, v). getProp (fst (parseFrontmatter (persistedText r body))) k = v)
       (recordFields r)"

text \<open>A string without the line separator U+2028 and the paragraph separator U+2029.\<close>

definition noSeparator :: "jsstring \<Rightarrow> bool" where
  "noSeparator s = (8232 \<notin> set s \<and> 8233 \<notin> set s)"

text \<open>
  A text in which no line feed is followed by a hyphen and which does not end with a
  line feed: the closing fence cannot begin in it.
\<close>

fun fenceFree :: "jsstring \<Rightarrow> bool" where
  "fenceFree [] = True"
| "fenceFree [c] = (c \<noteq> 10)"
| "fenceFree (c # d # cs) = ((c \<noteq> 10 \<or> d \<noteq> 45) \<and> fenceFree (d # cs))"

text \<open>
  The round trip as the specification words it: the persisted text is split, and the
  metadata block is read again by the line parser.
\<close>

definition spec_roundTripSplit :: "normalized \<Rightarrow> jsstring \<Rightarrow> bool" where
  "spec_roundTripSplit r body =
     list_all (\<lambda>(k, v). getProp (parseLines (fst (splitFrontmatter (persistedText r body)))) k = v)
       (recordFields r)"

text \<open>The lines between the fences that \<open>toFrontmatter\<close> writes, and a block of lines.\<close>

definition frontLines :: "normalized \<Rightarrow> jsstring list" where
  "frontLines obj =
       [js ''title: '' @ stringifyString (orElse (title obj) []),
        js ''lane: '' @ stringifyString (orElse (lane obj) (js ''A'')),
        js ''status: '' @ stringifyString (orElse (status obj) (js ''draft'')),
        js ''tags: '' @ stringifyArray (case tags obj of None \<Rightarrow> [] | Some ts \<Rightarrow> ts),
        js ''source_refs: []'',
        js ''summary: '' @ stringifyString (orElse (summary obj) []),
        js ''publish_targets: '' @
          stringifyArray (case publish_targets obj of None \<Rightarrow> [js ''github''] | Some ps \<Rightarrow> ps)]"

definition block :: "jsstring list \<Rightarrow> jsstring" where
  "block ls = concat (map (\<lambda>l. 10 # l) ls)"

text \<open>
  A line that the splitting into lines and the trimming of the block leave as it is.
\<close>

definition goodLine :: "jsstring \<Rightarrow> bool" where
  "goodLine l = (10 \<notin> set l \<and> l \<noteq> [] \<and> hd l \<noteq> 45 \<and> \<not> isSpace (hd l) \<and> \<not> isSpace (last l))"

text \<open>
  The strings that \<open>toFrontmatter\<close> writes for a record have no line or paragraph
  separator, and the object that the line parser builds from its lines.
\<close>

definition fieldsClean :: "normalized \<Rightarrow> bool" where
  "fieldsClean obj =
     (noSeparator (orElse (title obj) []) \<and> noSeparator (orElse (lane obj) (js ''A'')) \<and>
      noSeparator (orElse (status obj) (js ''draft'')) \<and>
      list_all noSeparator (case tags obj of None \<Rightarrow> [] | Some ts \<Rightarrow> ts) \<and>
      noSeparator (orElse (summary obj) []) \<and>
      list_all noSeparator (case publish_targets obj of None \<Rightarrow> [js ''github''] | Some ps \<Rightarrow> ps))"

definition fmOf :: "normalized \<Rightarrow> fmObject" where
  "fmOf obj =
     \<lparr> own = [js ''title'' \<mapsto> JStr (orElse (title obj) []),
              js ''lane'' \<mapsto> JStr (orElse (lane obj) (js ''A'')),
              js ''status'' \<mapsto> JStr (orElse (status obj) (js ''draft'')),
              js ''tags'' \<mapsto> JArr (map JStr (case tags obj of None \<Rightarrow> [] | Some ts \<Rightarrow> ts)),
              js ''source_refs'' \<mapsto> JArr [],
              js ''summary'' \<mapsto> JStr (orElse (summary obj) []),
              js ''publish_targets'' \<mapsto>
                JArr (map JStr (case publish_targets obj of None \<Rightarrow> [js ''github''] | Some ps \<Rightarrow> ps))],
       proto = None \<rparr>"

text \<open>
  The number of places of a text where a word begins: a code unit that is not white
  space, at the start (when \<open>prev\<close> holds) or after white space.
\<close>

fun wordStarts :: "bool \<Rightarrow> jsstring \<Rightarrow> nat" where
  "wordStarts prev [] = 0"
| "wordStarts prev (c # cs) =
     (if isSpace c then wordStarts True cs
      else (if prev then 1 else 0) + wordStarts False cs)"

section \<open>Example inputs\<close>

text \<open>
  A configuration that uses the remote variant and one that does not, a remote that
  throws on every call and one that throws twice and then returns, and two drafts with
  the same body, one of them with a frontmatter block.
\<close>

definition example_remote_cfg :: config where
  "example_remote_cfg = \<lparr> dryRun = False, apiKey = js ''sk-test'', forceLane = [], maxCount = 50 \<rparr>"

definition example_local_cfg :: config where
  "example_local_cfg = \<lparr> dryRun = True, apiKey = [], forceLane = [], maxCount = 50 \<rparr>"

definition example_failing :: remote where
  "example_failing k = Inl (js ''fetch failed'')"

definition example_result :: normalized where
  "example_result =
     \<lparr> title = Some (js ''kernel loop''), lane = Some (js ''D''), status = Some (js ''draft''),
       tags = Some [js ''kernel'', js ''loop'', js ''plan''], source_refs = None,
       summary = Some (js ''Plan, patch, test, stop.''), publish_targets = Some [js ''gist''],
       content = Some (js ''Kernel loop: plan, patch, test, stop.'') \<rparr>"

definition example_flaky :: remote where
  "example_flaky k = (if k < 2 then Inl (js ''fetch failed'') else Inr example_result)"

definition example_body :: jsstring where
  "example_body = js ''Keep artifacts atomic: one idea per post.''"

definition example_draft1 :: draft where
  "example_draft1 =
     \<lparr> fileName = js ''one.md'',
       raw = js ''---'' @ [10] @ js ''lane: B'' @ [10] @ js ''---'' @ [10, 10] @ example_body @ [10],
       remoteOf = example_failing \<rparr>"

definition example_draft2 :: draft where
  "example_draft2 = \<lparr> fileName = js ''two.md'', raw = example_body, remoteOf = example_failing \<rparr>"

text \<open>
  Two drafts with different bodies for which the remote variant returns the same
  content, and a draft with a text of more than four million code units.
\<close>

definition example_draft3 :: draft where
  "example_draft3 =
     \<lparr> fileName = js ''three.md'', raw = js ''Notes on the kernel loop.'',
       remoteOf = example_flaky \<rparr>"

definition example_draft4 :: draft where
  "example_draft4 =
     \<lparr> fileName = js ''four.md'', raw = js ''Another text about loops.'',
       remoteOf = example_flaky \<rparr>"

definition example_long :: jsstring where
  "example_long = js ''!betdz'' @ replicate 4194314 32 @ js ''x''"

definition example_draft5 :: draft where
  "example_draft5 = \<lparr> fileName = js ''long.md'', raw = example_long, remoteOf = example_failing \<rparr>"

text \<open>A valid record that names one source, and the same record without sources.\<close>

definition example_record :: normalized where
  "example_record =
     \<lparr> title = Some (js ''Kernel Loop''), lane = Some (js ''D''), status = Some (js ''publish''),
       tags = Some [js ''kernel'', js ''loop'', js ''plan''],
       source_refs = Some [js ''notes/a.md''],
       summary = Some (js ''Plan, patch, test, stop.''), publish_targets = Some [js ''gist''],
       content = None \<rparr>"

definition example_record_no_refs :: normalized where
  "example_record_no_refs = example_record\<lparr>source_refs := Some []\<rparr>"

text \<open>A draft whose body is shorter than the 20 characters that the validator asks for.\<close>

definition example_short :: jsstring where
  "example_short = js ''Short note''"

text \<open>A draft whose first line begins with a markup character.\<close>

definition example_marked :: jsstring where
  "example_marked = js ''* keep it short and keep it atomic''"

text \<open>
  A result of the remote variant that breaks the rules which the guard block does not
  enforce: a title of markup characters only, a tag that is no slug, a publish target
  that is not allowed, and no summary. And a valid record without sources whose title
  has the line separator U+2028.
\<close>

definition example_unchecked :: normalized where
  "example_unchecked =
     \<lparr> title = Some (js ''***''), lane = Some (js ''C''), status = Some (js ''publish''),
       tags = Some [js ''C++''], source_refs = None, summary = None,
       publish_targets = Some [js ''blog''], content = None \<rparr>"

definition example_separated :: normalized where
  "example_separated = example_record_no_refs\<lparr>title := Some (js ''Kernel'' @ 8232 # js ''Loop'')\<rparr>"

section \<open>Properties of the local heuristic\<close>

lemma startsWith_map: "startsWith s k \<Longrightarrow> startsWith (map f s) (map f k)"
  by (induction s k rule: startsWith.induct) auto

lemma str_includes_map: "str_includes s k \<Longrightarrow> str_includes (map f s) (map f k)"
proof (induction s)
  case Nil
  then show ?case by simp
next
  case (Cons c cs)
  then show ?case using startsWith_map[of "c # cs" k f] by auto
qed

lemma toLowerCaseAscii_keeps: "keepsLowerCaseAscii toLowerCaseAscii"
proof -
  have "str_includes (toLowerCaseAscii s) k"
    if k: "list_all (\<lambda>c. 97 \<le> c \<and> c \<le> 122) k" and s: "str_includes s k" for s k
  proof -
    have "map lowerCU k = k"
      using k by (intro map_idI) (auto simp: list_all_iff lowerCU_def)
    then show ?thesis
      using str_includes_map[OF s, of lowerCU] by (simp add: toLowerCaseAscii_def)
  qed
  then show ?thesis by (simp add: keepsLowerCaseAscii_def)
qed

lemma lane_heuristicNormalize:
  "lane (heuristicNormalize toLowerCase text) = Some (heuristicLane (toLowerCase text))"
  by (simp add: heuristicNormalize_def Let_def)

text \<open>
  Claim C4. Whatever the lower-casing of the runtime does, the lane of the local
  heuristic is the first match of the scan B, C, D, E over the lower-cased text, and A
  when nothing matches: a lower-cased text in which \<open>diagram\<close> occurs gets lane B,
  whatever else occurs in it. In particular, when the lower-casing keeps the runs of
  the letters \<open>a-z\<close>, as the one of the runtime does, a text in which \<open>diagram\<close>
  occurs gets lane B.
\<close>

theorem heuristic_lane_priority:
  "lane (heuristicNormalize toLowerCase text)
     = Some (spec_firstMatch spec_laneOrder (toLowerCase text)) \<and>
   (str_includes (toLowerCase text) (js ''diagram'') \<longrightarrow>
      lane (heuristicNormalize toLowerCase text) = Some (js ''B'')) \<and>
   (keepsLowerCaseAscii toLowerCase \<longrightarrow> str_includes text (js ''diagram'') \<longrightarrow>
      lane (heuristicNormalize toLowerCase text) = Some (js ''B''))"
proof -
  have a: "heuristicLane t = spec_firstMatch spec_laneOrder t" for t
    by (simp add: heuristicLane_def spec_laneOrder_def)
  have b: "heuristicLane t = js ''B''" if "str_includes t (js ''diagram'')" for t
  proof -
    have "testAny [''diagram'', ''graph'', ''visual'', ''schematic'', ''svg''] t"
      using that by (simp add: testAny_def)
    then show ?thesis by (simp add: heuristicLane_def)
  qed
  have l: "list_all (\<lambda>c. 97 \<le> c \<and> c \<le> 122) (js ''diagram'')"
    by (simp add: js_def)
  have c: "str_includes (toLowerCase text) (js ''diagram'')"
    if "keepsLowerCaseAscii toLowerCase" and "str_includes text (js ''diagram'')"
    using that l unfolding keepsLowerCaseAscii_def by blast
  show ?thesis using a b c by (simp add: lane_heuristicNormalize)
qed

text \<open>
  A text with keywords of the lanes C, D and E and with \<open>diagram\<close>, under the
  lower-casing of ASCII strings: the lane is B.
\<close>

theorem heuristic_lane_priority_witness:
  "keepsLowerCaseAscii toLowerCaseAscii \<and>
   str_includes (js ''A Prompt about JSON notes and a Diagram; see diagram 2'') (js ''diagram'') \<and>
   str_includes (toLowerCaseAscii (js ''A Prompt about JSON notes and a Diagram; see diagram 2''))
     (js ''diagram'') \<and>
   testAny [''prompt'', ''rubric'', ''template'']
     (toLowerCaseAscii (js ''A Prompt about JSON notes and a Diagram; see diagram 2'')) \<and>
   testAny [''schema'', ''json'', ''code'', ''task graph'', ''api'']
     (toLowerCaseAscii (js ''A Prompt about JSON notes and a Diagram; see diagram 2'')) \<and>
   testAny [''insight'', ''note'', ''reflection'', ''aphorism'']
     (toLowerCaseAscii (js ''A Prompt about JSON notes and a Diagram; see diagram 2'')) \<and>
   lane (heuristicNormalize toLowerCaseAscii
           (js ''A Prompt about JSON notes and a Diagram; see diagram 2''))
     = Some (js ''B'')"
proof -
  have h: "str_includes (js ''A Prompt about JSON notes and a Diagram; see diagram 2'') (js ''diagram'')"
    by (simp add: js_def)
  have h': "str_includes (toLowerCaseAscii (js ''A Prompt about JSON notes and a Diagram; see diagram 2''))
     (js ''diagram'')"
    by (simp add: js_def toLowerCaseAscii_def lowerCU_def)
  have c: "testAny [''prompt'', ''rubric'', ''template'']
     (toLowerCaseAscii (js ''A Prompt about JSON notes and a Diagram; see diagram 2''))"
    by (simp add: testAny_def js_def toLowerCaseAscii_def lowerCU_def)
  have d: "testAny [''schema'', ''json'', ''code'', ''task graph'', ''api'']
     (toLowerCaseAscii (js ''A Prompt about JSON notes and a Diagram; see diagram 2''))"
    by (simp add: testAny_def js_def toLowerCaseAscii_def lowerCU_def)
  have e: "testAny [''insight'', ''note'', ''reflection'', ''aphorism'']
     (toLowerCaseAscii (js ''A Prompt about JSON notes and a Diagram; see diagram 2''))"
    by (simp add: testAny_def js_def toLowerCaseAscii_def lowerCU_def)
  have "lane (heuristicNormalize toLowerCaseAscii
           (js ''A Prompt about JSON notes and a Diagram; see diagram 2'')) = Some (js ''B'')"
    using heuristic_lane_priority[of toLowerCaseAscii
        "js ''A Prompt about JSON notes and a Diagram; see diagram 2''"]
      toLowerCaseAscii_keeps h h'
    by (elim conjE impE) assumption+
  then show ?thesis using toLowerCaseAscii_keeps h h' c d e by simp
qed

section \<open>Properties of the tag enrichment\<close>

lemma padTags_length: "3 \<le> length (padTags arr)"
  by (induction arr rule: padTags.induct) (subst padTags.simps, auto)

lemma padTags_id: "3 \<le> length arr \<Longrightarrow> padTags arr = arr"
  by (subst padTags.simps) auto

lemma padTags_short:
  "length arr < 3 \<Longrightarrow> padTags arr = arr @ replicate (3 - length arr) (js ''artifact'')"
proof (induction arr rule: padTags.induct)
  case (1 arr)
  have step: "padTags arr = padTags (arr @ [js ''artifact''])"
    using 1(2) by (subst padTags.simps) simp
  show ?case
  proof (cases "length (arr @ [js ''artifact'']) < 3")
    case True
    then have "padTags (arr @ [js ''artifact'']) =
        (arr @ [js ''artifact'']) @ replicate (3 - length (arr @ [js ''artifact''])) (js ''artifact'')"
      using 1 by blast
    moreover have "3 - length arr = Suc (3 - length (arr @ [js ''artifact'']))"
      using True by simp
    ultimately show ?thesis
      using step by (simp only: replicate_Suc append_assoc append_Cons append_Nil)
  next
    case False
    with 1(2) have l: "length arr = 2" by simp
    have "padTags (arr @ [js ''artifact'']) = arr @ [js ''artifact'']"
      using False by (subst padTags.simps) simp
    then show ?thesis using l step by simp
  qed
qed

lemma padTags_le: "length arr \<le> 7 \<Longrightarrow> length (padTags arr) \<le> 7"
  by (cases "length arr < 3") (simp_all add: padTags_short padTags_id)

text \<open>
  Claim C9. Whatever tags the oracle gave and whatever the text is, \<open>enrichTags\<close>
  returns at least 3 and at most 7 tags.
\<close>

theorem enrichTags_cardinality:
  "3 \<le> length (enrichTags toLowerCase tags0 textLower) \<and> length (enrichTags toLowerCase tags0 textLower) \<le> 7"
proof -
  define arr where "arr = take 7 (foldl setAdd (newSet (map (normTag toLowerCase) tags0)) (vocabHits textLower))"
  have "length arr \<le> 7" by (simp add: arr_def)
  then have "length (padTags arr) \<le> 7" by (rule padTags_le)
  moreover have "3 \<le> length (padTags arr)" by (rule padTags_length)
  moreover have "enrichTags toLowerCase tags0 textLower = padTags arr"
    by (simp add: enrichTags_def arr_def)
  ultimately show ?thesis by simp
qed

lemma foldl_setAdd_subset: "set ys \<subseteq> set acc \<Longrightarrow> foldl setAdd acc ys = acc"
  by (induction ys arbitrary: acc) (auto simp: setAdd_def)

lemma newSet_const: "set ys \<subseteq> {a} \<Longrightarrow> newSet ys = (if ys = [] then [] else [a])"
proof (cases ys)
  case Nil
  then show ?thesis by (simp add: newSet_def)
next
  case (Cons y ys')
  assume "set ys \<subseteq> {a}"
  with Cons have "y = a" and "set ys' \<subseteq> set [a]" by auto
  then have "foldl setAdd [a] ys' = [a]" using foldl_setAdd_subset by blast
  then show ?thesis using Cons \<open>y = a\<close> by (simp add: newSet_def setAdd_def)
qed

text \<open>
  Claim C10. When every tag of the oracle is the filler (after the lower-casing, trimming
  and hyphenation that \<open>enrichTags\<close> applies), in particular when there is none, and
  no vocabulary term occurs in the text, the result is the filler three times: the
  padding repeats one tag, and the tag list has duplicates.
\<close>

theorem enrichTags_filler_only:
  assumes "\<forall>t \<in> set tags0. normTag toLowerCase t = js ''artifact''"
    and "\<forall>v \<in> set tagVocab. \<not> str_includes textLower (hyphensToSpaces v)"
  shows "enrichTags toLowerCase tags0 textLower = [js ''artifact'', js ''artifact'', js ''artifact''] \<and>
         \<not> distinct (enrichTags toLowerCase tags0 textLower)"
proof -
  have v: "vocabHits textLower = []"
    using assms(2) by (simp add: vocabHits_def filter_empty_conv)
  have "set (map (normTag toLowerCase) tags0) \<subseteq> {js ''artifact''}" using assms(1) by auto
  then have s: "newSet (map (normTag toLowerCase) tags0) = (if tags0 = [] then [] else [js ''artifact''])"
    using newSet_const[of "map (normTag toLowerCase) tags0" "js ''artifact''"] by simp
  have "enrichTags toLowerCase tags0 textLower = [js ''artifact'', js ''artifact'', js ''artifact'']"
  proof (cases "tags0 = []")
    case True
    then show ?thesis by (simp add: enrichTags_def v newSet_def padTags_short numeral_3_eq_3)
  next
    case False
    then show ?thesis by (simp add: enrichTags_def v s padTags_short numeral_3_eq_3)
  qed
  then show ?thesis by simp
qed

text \<open>No tags, and two tags that both normalise to the filler, over a text without vocabulary.\<close>

theorem enrichTags_filler_only_witness:
  "enrichTags toLowerCaseAscii [] (js ''hello'') = [js ''artifact'', js ''artifact'', js ''artifact''] \<and>
   enrichTags toLowerCaseAscii [js ''Artifact '', js ''artifact''] (js ''hello'')
     = [js ''artifact'', js ''artifact'', js ''artifact''] \<and>
   \<not> distinct (enrichTags toLowerCaseAscii [] (js ''hello''))"
proof -
  have a: "\<forall>v \<in> set tagVocab. \<not> str_includes (js ''hello'') (hyphensToSpaces v)"
    by (simp add: tagVocab_def js_def hyphensToSpaces_def)
  have b: "\<forall>t \<in> set [js ''Artifact '', js ''artifact'']. normTag toLowerCaseAscii t = js ''artifact''"
    by (simp add: normTag_def js_def toLowerCaseAscii_def lowerCU_def trim_def isSpace_def)
  show ?thesis
    using enrichTags_filler_only[OF _ a, of "[]" toLowerCaseAscii] enrichTags_filler_only[OF b a]
    by simp
qed

section \<open>Evaluation of the example inputs\<close>

lemmas js_eval = js_def trim_def isSpace_def isWord_def lowerCU_def upperCU_def toLowerCaseAscii_def
  stripMarkdown_def isMarkdownChar_def hyphensToSpaces_def slice_def sliceFrom_def indexOfFrom_def
  dropCR_def splitLines_def setAdd_def newSet_def testAny_def Let_def

lemmas json_eval = JSON_parse_def consTok_def consFst_def appendFst_def unescape_def decodeHex4_def
  hexVal_def isDigit_def lexNumber_def lexInt_def lexFrac_def lexExp_def lexDigits_def
  pushValue_def startValue_def closeArr_def closeObj_def startKey_def lexStr.simps

lemmas fm_eval = matchKeyValue_def isKeyChar_def isLineTerminator_def stripQuotes_def parseLine_def
  parseLines_def parseFrontmatter_def setProp_def getProp_def emptyFm_def

lemmas guard_steps = guardValues_def forceLaneStep_def allowedLaneStep_def statusStep_def
  targetsStep_def titleStep_def tagsStep_def contentStep_def

lemma example_split1: "splitFrontmatter (raw example_draft1) = (js ''lane: B'', example_body)"
  by (simp add: example_draft1_def example_body_def splitFrontmatter_def js_eval)

lemma example_split2: "splitFrontmatter (raw example_draft2) = ([], example_body)"
  by (simp add: example_draft2_def example_body_def splitFrontmatter_def js_eval)

lemma example_heuristic:
  "heuristicNormalize toLowerCaseAscii example_body =
     \<lparr> title = Some (js ''Keep artifacts atomic: one idea per post.''), lane = Some (js ''A''),
       status = Some (js ''draft''), tags = Some [], source_refs = Some [],
       summary = Some (js ''Keep artifacts atomic: one idea per post.''),
       publish_targets = Some [js ''github''], content = None \<rparr>"
  by (simp add: heuristicNormalize_def example_body_def defaultFrontmatter_def heuristicLane_def
      heuristicKeywords_def js_eval)

lemma example_title:
  "sanitizeTitle (js ''Keep artifacts atomic: one idea per post.'')
     = js ''Keep Artifacts Atomic: One Idea Per Post.''"
  by (simp add: sanitizeTitle_def js_eval)

lemma example_vocab: "vocabHits (toLowerCaseAscii example_body) = []"
  by (simp add: vocabHits_def tagVocab_def example_body_def js_eval)

lemma example_tags:
  "enrichTags toLowerCaseAscii [] (toLowerCaseAscii example_body) = [js ''artifact'', js ''artifact'', js ''artifact'']"
  by (simp add: enrichTags_def example_vocab newSet_def padTags_short numeral_3_eq_3)

lemma example_guard:
  "guardValues toLowerCaseAscii [] example_body (heuristicNormalize toLowerCaseAscii example_body) =
     \<lparr> title = Some (js ''Keep Artifacts Atomic: One Idea Per Post.''), lane = Some (js ''A''),
       status = Some (js ''draft''), tags = Some [js ''artifact'', js ''artifact'', js ''artifact''],
       source_refs = Some [],
       summary = Some (js ''Keep artifacts atomic: one idea per post.''),
       publish_targets = Some [js ''github''], content = None \<rparr>"
proof -
  have t: "truthy (Some (js ''Keep artifacts atomic: one idea per post.''))" "\<not> truthy None"
    by (simp_all add: truthy_def js_def)
  have l: "Some (js ''A'') \<in> Some ` set allowedLanes"
    by (simp add: allowedLanes_def)
  show ?thesis
    by (simp add: guard_steps example_heuristic example_title example_tags t l)
qed

section \<open>Properties of the retry loop\<close>

lemma retryLoop_3: "retryLoop remote 3 = (None, [])"
  by (subst retryLoop.simps) simp

lemma retryLoop_2:
  "retryLoop remote 2 = (case remote 2 of Inr r \<Rightarrow> (Some r, [Call]) | Inl e \<Rightarrow> (None, [Call, Sleep 2000]))"
  by (subst retryLoop.simps) (simp add: retryLoop_3 split: sum.splits)

lemma retryLoop_1:
  "retryLoop remote (Suc 0) =
     (case remote (Suc 0) of Inr r \<Rightarrow> (Some r, [Call])
      | Inl e \<Rightarrow> (fst (retryLoop remote 2), Call # Sleep 1000 # snd (retryLoop remote 2)))"
  by (subst retryLoop.simps) (simp add: split_beta numeral_2_eq_2[symmetric] split: sum.splits)

lemma retryLoop_0:
  "retryLoop remote 0 =
     (case remote 0 of Inr r \<Rightarrow> (Some r, [Call])
      | Inl e \<Rightarrow> (fst (retryLoop remote (Suc 0)), Call # Sleep 500 # snd (retryLoop remote (Suc 0))))"
  by (subst retryLoop.simps) (simp add: split_beta split: sum.splits)

lemma retryLoop_unrolled:
  "retryLoop remote 0 =
     (case remote 0 of Inr r \<Rightarrow> (Some r, [Call]) | Inl e0 \<Rightarrow>
      (case remote 1 of Inr r \<Rightarrow> (Some r, [Call, Sleep 500, Call]) | Inl e1 \<Rightarrow>
       (case remote 2 of Inr r \<Rightarrow> (Some r, [Call, Sleep 500, Call, Sleep 1000, Call])
        | Inl e2 \<Rightarrow> (None, [Call, Sleep 500, Call, Sleep 1000, Call, Sleep 2000]))))"
  by (simp add: retryLoop_0 retryLoop_1 retryLoop_2 split: sum.splits)

text \<open>
  Claim C5. The loop calls the remote variant at most 3 times. Its trace is an initial
  part of: call, sleep 500, call, sleep 1000, call, sleep 2000; so the retry number
  \<open>n\<close> comes after a sleep of \<open>500 * 2 ^ (n - 1)\<close> milliseconds, a fixed number.
  When the first two calls throw and the third returns \<open>r\<close>, there are exactly 3
  calls, with the sleeps of 500 and 1000 between them, and \<open>r\<close> is what the loop
  yields and what the guard block receives.
\<close>

theorem retry_backoff:
  "length (filter (\<lambda>e. e = Call) (snd (retryLoop remote 0))) \<le> 3 \<and>
   snd (retryLoop remote 0) =
     take (length (snd (retryLoop remote 0)))
       [Call, Sleep (500 * 2 ^ (1 - 1)), Call, Sleep (500 * 2 ^ (2 - 1)), Call, Sleep (500 * 2 ^ (3 - 1))] \<and>
   (remote 0 = Inl e0 \<and> remote 1 = Inl e1 \<and> remote 2 = Inr r \<longrightarrow>
      retryLoop remote 0 = (Some r, [Call, Sleep 500, Call, Sleep 1000, Call]) \<and>
      (\<not> dryRun cfg \<and> apiKey cfg \<noteq> [] \<longrightarrow>
         classify toLowerCase cfg remote body = (r, [Call, Sleep 500, Call, Sleep 1000, Call])))"
  by (simp add: retryLoop_unrolled classify_def split: sum.splits)

text \<open>The remote of the examples throws twice and then returns.\<close>

theorem retry_backoff_witness:
  "example_flaky 0 = Inl (js ''fetch failed'') \<and> example_flaky 1 = Inl (js ''fetch failed'') \<and>
   example_flaky 2 = Inr example_result \<and>
   \<not> dryRun example_remote_cfg \<and> apiKey example_remote_cfg \<noteq> [] \<and>
   retryLoop example_flaky 0 = (Some example_result, [Call, Sleep 500, Call, Sleep 1000, Call]) \<and>
   classify toLowerCaseAscii example_remote_cfg example_flaky example_body
     = (example_result, [Call, Sleep 500, Call, Sleep 1000, Call])"
proof -
  have h: "example_flaky 0 = Inl (js ''fetch failed'') \<and> example_flaky 1 = Inl (js ''fetch failed'') \<and>
     example_flaky 2 = Inr example_result"
    by (simp add: example_flaky_def)
  have c: "\<not> dryRun example_remote_cfg \<and> apiKey example_remote_cfg \<noteq> []"
    by (simp add: example_remote_cfg_def js_def)
  show ?thesis
    using h c retry_backoff[of example_flaky "js ''fetch failed''" "js ''fetch failed''"
        example_result example_remote_cfg toLowerCaseAscii example_body]
    by simp
qed

section \<open>The fallback to the local heuristic\<close>






section \<open>Properties of the content hash and of the duplicate check\<close>

lemma toInt32_cong: "toInt32 x mod 2 ^ 32 = x mod 2 ^ 32"
proof -
  have "toInt32 x mod 2 ^ 32 = ((x + 2 ^ 31) mod 2 ^ 32 - 2 ^ 31) mod 2 ^ 32"
    by (simp add: toInt32_def)
  also have "\<dots> = ((x + 2 ^ 31) - 2 ^ 31) mod 2 ^ 32"
    by (rule mod_diff_left_eq)
  finally show ?thesis by simp
qed

lemma toInt32_bounds: "- (2 ^ 31) \<le> toInt32 x \<and> toInt32 x < 2 ^ 31"
proof -
  have "0 \<le> (x + 2 ^ 31) mod 2 ^ 32" "(x + 2 ^ 31) mod (2 ^ 32 :: int) < 2 ^ 32"
    by simp_all
  then show ?thesis by (simp add: toInt32_def)
qed

lemma toInt32_id: "- (2 ^ 31) \<le> x \<Longrightarrow> x < 2 ^ 31 \<Longrightarrow> toInt32 x = x"
  by (simp add: toInt32_def)

lemma shiftLeft5_cong: "shiftLeft5 h mod 2 ^ 32 = (h * 2 ^ 5) mod 2 ^ 32"
proof -
  have "shiftLeft5 h mod 2 ^ 32 = (toInt32 h * 2 ^ 5) mod 2 ^ 32"
    by (simp only: shiftLeft5_def toInt32_cong)
  also have "\<dots> = ((toInt32 h mod 2 ^ 32) * 2 ^ 5) mod 2 ^ 32"
    by (simp only: mod_mult_left_eq)
  also have "\<dots> = ((h mod 2 ^ 32) * 2 ^ 5) mod 2 ^ 32"
    by (simp only: toInt32_cong)
  also have "\<dots> = (h * 2 ^ 5) mod 2 ^ 32"
    by (simp only: mod_mult_left_eq)
  finally show ?thesis .
qed

lemma shiftLeft5_bounds: "- (2 ^ 31) \<le> shiftLeft5 h \<and> shiftLeft5 h < 2 ^ 31"
  unfolding shiftLeft5_def by (rule toInt32_bounds)

lemma exactStep_cong:
  assumes "h mod 2 ^ 32 = h' mod 2 ^ 32"
  shows "exactStep h c mod 2 ^ 32 = (h' * 33 + int c) mod 2 ^ 32"
proof -
  have "exactStep h c mod 2 ^ 32 = (shiftLeft5 h mod 2 ^ 32 + (h + int c)) mod 2 ^ 32"
    by (simp only: exactStep_def mod_add_left_eq add.assoc)
  also have "\<dots> = ((h * 2 ^ 5) mod 2 ^ 32 + (h + int c)) mod 2 ^ 32"
    by (simp only: shiftLeft5_cong)
  also have "\<dots> = (h * 2 ^ 5 + (h + int c)) mod 2 ^ 32"
    by (simp only: mod_add_left_eq)
  also have "\<dots> = (h * 33 + int c) mod 2 ^ 32"
    by (simp add: algebra_simps)
  also have "\<dots> = ((h mod 2 ^ 32) * 33 + int c) mod 2 ^ 32"
    by (metis mod_add_left_eq mod_mult_left_eq)
  also have "\<dots> = ((h' mod 2 ^ 32) * 33 + int c) mod 2 ^ 32"
    using assms by (simp only:)
  also have "\<dots> = (h' * 33 + int c) mod 2 ^ 32"
    by (metis mod_add_left_eq mod_mult_left_eq)
  finally show ?thesis .
qed

lemma foldl_exactStep_cong:
  "h mod 2 ^ 32 = h' mod 2 ^ 32 \<Longrightarrow>
   foldl exactStep h s mod 2 ^ 32 = foldl (\<lambda>h c. h * 33 + int c) h' s mod 2 ^ 32"
proof (induction s arbitrary: h h')
  case Nil
  then show ?case by simp
next
  case (Cons c s)
  show ?case using Cons.IH[OF exactStep_cong[OF Cons.prems, of c]] by simp
qed

lemma foldl_spec_cong:
  "h mod 2 ^ 32 = h' mod 2 ^ 32 \<Longrightarrow>
   foldl (\<lambda>h c. h * 33 + int c) h s mod 2 ^ 32 = foldl (\<lambda>h c. h * 33 + int c) h' s mod (2 ^ 32 :: int)"
proof (induction s arbitrary: h h')
  case Nil
  then show ?case by simp
next
  case (Cons c s)
  have "(h * 33 + int c) mod 2 ^ 32 = (h' * 33 + int c) mod 2 ^ 32"
    using Cons.prems by (metis mod_add_left_eq mod_mult_left_eq)
  from Cons.IH[OF this] show ?case by simp
qed

text \<open>A sum below \<open>2^53\<close> in absolute value does not round.\<close>

lemma addNumbers_exact: "\<bar>x + y\<bar> < 2 ^ 53 \<Longrightarrow> addNumbers x y = Some (x + y)"
  by (simp add: addNumbers_def Let_def)

lemma hashStep_exact:
  assumes "\<bar>h\<bar> + 2 ^ 31 + int c < 2 ^ 53"
  shows "hashStep (Some h) c = Some (exactStep h c) \<and> \<bar>exactStep h c\<bar> \<le> \<bar>h\<bar> + 2 ^ 31 + int c"
proof -
  note b = shiftLeft5_bounds[of h]
  have 1: "\<bar>shiftLeft5 h + h\<bar> < 2 ^ 53" using assms b by linarith
  have 2: "\<bar>(shiftLeft5 h + h) + int c\<bar> < 2 ^ 53" using assms b by linarith
  have 3: "\<bar>(shiftLeft5 h + h) + int c\<bar> \<le> \<bar>h\<bar> + 2 ^ 31 + int c" using b by linarith
  show ?thesis
    using 3 by (simp add: hashStep_def exactStep_def addNumbers_exact[OF 1] addNumbers_exact[OF 2])
qed

lemma foldl_hashStep_exact:
  assumes "isString s" and "\<bar>h\<bar> + int (length s) * (2 ^ 31 + 2 ^ 16) < 2 ^ 53"
  shows "foldl hashStep (Some h) s = Some (foldl exactStep h s)"
  using assms
proof (induction s arbitrary: h)
  case Nil
  then show ?case by simp
next
  case (Cons c s)
  have c: "int c < 2 ^ 16" using Cons.prems(1) by (simp add: isString_def)
  have l: "\<bar>h\<bar> + (1 + int (length s)) * (2 ^ 31 + 2 ^ 16) < 2 ^ 53"
    using Cons.prems(2) by (simp add: algebra_simps)
  have "0 \<le> int (length s) * (2 ^ 31 + 2 ^ 16)" by simp
  then have b: "\<bar>h\<bar> + 2 ^ 31 + int c < 2 ^ 53" using l c by (simp add: algebra_simps)
  note e = hashStep_exact[OF b]
  have "\<bar>exactStep h c\<bar> + int (length s) * (2 ^ 31 + 2 ^ 16) < 2 ^ 53"
    using e l c by (simp add: algebra_simps)
  moreover have "isString s" using Cons.prems(1) by (simp add: isString_def)
  ultimately have "foldl hashStep (Some (exactStep h c)) s = Some (foldl exactStep (exactStep h c) s)"
    using Cons.IH by blast
  then show ?case using e by simp
qed

lemma contentHash_spec:
  assumes "isString s" and "length s \<le> 4000000"
  shows "contentHash s = spec_fingerprint s"
proof -
  have "int (length s) * (2 ^ 31 + 2 ^ 16) \<le> 4000000 * (2 ^ 31 + 2 ^ 16)"
    using assms(2) by (intro mult_right_mono) simp_all
  then have "\<bar>5381\<bar> + int (length s) * (2 ^ 31 + 2 ^ 16) < 2 ^ 53" by simp
  then have "foldl hashStep (Some 5381) s = Some (foldl exactStep 5381 s)"
    using foldl_hashStep_exact[OF assms(1)] by blast
  then show ?thesis
    using foldl_exactStep_cong[of 5381 5381 s]
    by (simp add: contentHash_def spec_fingerprint_def spec_rollingHash_def toUint32_def)
qed

text \<open>Different numbers have different hexadecimal numerals.\<close>

lemma toStringHex_inj: "toStringHex a = toStringHex b \<Longrightarrow> a = b"
proof -
  define dec where "dec = foldl (\<lambda>(a::nat) c. 16 * a + (if c < 58 then c - 48 else c - 87)) 0"
  have d: "dec (toStringHex n) = n" for n
  proof (induction n rule: toStringHex.induct)
    case (1 n)
    show ?case
    proof (cases "n < 16")
      case True
      then show ?thesis
        by (subst toStringHex.simps) (simp add: dec_def hexDigit_def)
    next
      case False
      have m: "n mod 16 < 16" by simp
      have "dec (toStringHex n) = dec (toStringHex (n div 16) @ [hexDigit (n mod 16)])"
        using False by (subst toStringHex.simps) simp
      also have "\<dots> = 16 * dec (toStringHex (n div 16)) + n mod 16"
        using m by (simp add: dec_def hexDigit_def)
      also have "\<dots> = n" using 1[OF False] by simp
      finally show ?thesis .
    qed
  qed
  assume "toStringHex a = toStringHex b"
  then have "dec (toStringHex a) = dec (toStringHex b)" by simp
  then show ?thesis by (simp add: d)
qed

lemma contentHash_eq_iff:
  assumes "isString a" "length a \<le> 4000000" "isString b" "length b \<le> 4000000"
  shows "(contentHash a = contentHash b)
           = (spec_rollingHash a mod 2 ^ 32 = spec_rollingHash b mod 2 ^ 32)"
proof -
  have "(contentHash a = contentHash b)
      = (nat (spec_rollingHash a mod 2 ^ 32) = nat (spec_rollingHash b mod 2 ^ 32))"
    using toStringHex_inj
    by (auto simp: contentHash_spec[OF assms(1,2)] contentHash_spec[OF assms(3,4)]
        spec_fingerprint_def)
  moreover have "0 \<le> spec_rollingHash a mod 2 ^ 32" "0 \<le> spec_rollingHash b mod 2 ^ 32"
    by simp_all
  ultimately show ?thesis by (simp add: eq_nat_nat_iff)
qed

text \<open>The string that the loop hashes for a draft is the one of the specification.\<close>

lemma contentOrBody_spec:
  "contentOrBody (fst (normalizeDraft toLowerCase cfg d)) (fst (snd (normalizeDraft toLowerCase cfg d)))
     = spec_sanitizedContent toLowerCase cfg d"
  by (simp add: contentOrBody_def truthy_def spec_sanitizedContent_def normalizeDraft_def split_beta
      split: option.splits)

lemma processDraft_unfold:
  "processDraft toLowerCase cfg st d =
     (if contentHash (spec_sanitizedContent toLowerCase cfg d) \<in> set (seenHashes st)
      then st\<lparr>trace := trace st @ snd (snd (normalizeDraft toLowerCase cfg d)),
              logged := logged st @ [SkipDuplicate (fileName d)]\<rparr>
      else st\<lparr>trace := trace st @ snd (snd (normalizeDraft toLowerCase cfg d)),
              seenHashes := seenHashes st @ [contentHash (spec_sanitizedContent toLowerCase cfg d)],
              written := written st @
                [(outNameOf (fileName d),
                  toFrontmatter (fst (normalizeDraft toLowerCase cfg d)) @
                  trim (spec_sanitizedContent toLowerCase cfg d) @ [10])],
              logged := logged st @ [Normalized (fileName d) (outNameOf (fileName d))]\<rparr>)"
  using contentOrBody_spec[of toLowerCase cfg d]
  by (simp add: processDraft_def Let_def split_beta setAdd_def persistedText_def)

lemma processDraft_seen:
  "contentHash (spec_sanitizedContent toLowerCase cfg d) \<in> set (seenHashes (processDraft toLowerCase cfg st d)) \<and>
   set (seenHashes st) \<subseteq> set (seenHashes (processDraft toLowerCase cfg st d))"
  by (auto simp: processDraft_unfold)

lemma processDraft_duplicate:
  "contentHash (spec_sanitizedContent toLowerCase cfg d) \<in> set (seenHashes st) \<Longrightarrow>
   written (processDraft toLowerCase cfg st d) = written st \<and>
   seenHashes (processDraft toLowerCase cfg st d) = seenHashes st \<and>
   logged (processDraft toLowerCase cfg st d) = logged st @ [SkipDuplicate (fileName d)]"
  by (simp add: processDraft_unfold)

lemma processDraft_fresh:
  "contentHash (spec_sanitizedContent toLowerCase cfg d) \<notin> set (seenHashes st) \<Longrightarrow>
   written (processDraft toLowerCase cfg st d) =
     written st @ [(outNameOf (fileName d),
        toFrontmatter (fst (normalizeDraft toLowerCase cfg d)) @
        trim (spec_sanitizedContent toLowerCase cfg d) @ [10])] \<and>
   seenHashes (processDraft toLowerCase cfg st d)
     = seenHashes st @ [contentHash (spec_sanitizedContent toLowerCase cfg d)] \<and>
   logged (processDraft toLowerCase cfg st d)
     = logged st @ [Normalized (fileName d) (outNameOf (fileName d))]"
  by (simp add: processDraft_unfold)

lemma foldl_seen_mono:
  "set (seenHashes st) \<subseteq> set (seenHashes (foldl (processDraft toLowerCase cfg) st ds))"
proof (induction ds arbitrary: st)
  case Nil then show ?case by simp
next
  case (Cons d ds)
  show ?case
    using Cons.IH[of "processDraft toLowerCase cfg st d"] processDraft_seen[of toLowerCase cfg d st]
    by auto
qed

lemma foldl_all_duplicates:
  assumes "\<forall>d \<in> set ds. contentHash (spec_sanitizedContent toLowerCase cfg d) \<in> set (seenHashes st)"
  shows "written (foldl (processDraft toLowerCase cfg) st ds) = written st \<and>
         seenHashes (foldl (processDraft toLowerCase cfg) st ds) = seenHashes st \<and>
         logged (foldl (processDraft toLowerCase cfg) st ds)
           = logged st @ map (\<lambda>d. SkipDuplicate (fileName d)) ds"
  using assms
proof (induction ds arbitrary: st)
  case Nil then show ?case by simp
next
  case (Cons d ds)
  have d: "contentHash (spec_sanitizedContent toLowerCase cfg d) \<in> set (seenHashes st)"
    using Cons.prems by simp
  note p = processDraft_duplicate[OF d]
  have "\<forall>x \<in> set ds. contentHash (spec_sanitizedContent toLowerCase cfg x)
      \<in> set (seenHashes (processDraft toLowerCase cfg st d))"
    using Cons.prems p by simp
  from Cons.IH[OF this] show ?case using p by simp
qed

lemmas hash_eval = hashStep_def addNumbers_def shiftLeft5_def toInt32_def toUint32_def Let_def
  roundFrom.simps roundToMultiple_def exactStep_def

lemma guard_content:
  "content (guardValues toLowerCase force body n0) =
     (if truthy (content n0) then Some (limitContent (the (content n0))) else content n0)"
  by (simp add: guard_steps)

lemma example_split3:
  "splitFrontmatter (raw example_draft3) = ([], js ''Notes on the kernel loop.'')"
  "splitFrontmatter (raw example_draft4) = ([], js ''Another text about loops.'')"
  by (simp_all add: example_draft3_def example_draft4_def splitFrontmatter_def js_eval)

lemma example_flaky_classify:
  "classify toLowerCaseAscii example_remote_cfg example_flaky body
     = (example_result, [Call, Sleep 500, Call, Sleep 1000, Call])"
  by (simp add: classify_def retryLoop_unrolled example_flaky_def example_remote_cfg_def js_def)

lemma example_failing_classify:
  "classify toLowerCaseAscii example_remote_cfg example_failing body
     = (heuristicNormalize toLowerCaseAscii body, [Call, Sleep 500, Call, Sleep 1000, Call, Sleep 2000])"
  by (simp add: classify_def retryLoop_unrolled example_failing_def example_remote_cfg_def js_def)

lemma example_result_content:
  "limitContent (js ''Kernel loop: plan, patch, test, stop.'')
     = js ''Kernel loop: plan, patch, test, stop.''"
  by (simp add: limitContent_def js_eval)

lemma example_remote_content:
  "spec_sanitizedContent toLowerCaseAscii example_remote_cfg example_draft3
     = js ''Kernel loop: plan, patch, test, stop.''"
  "spec_sanitizedContent toLowerCaseAscii example_remote_cfg example_draft4
     = js ''Kernel loop: plan, patch, test, stop.''"
  "spec_sanitizedContent toLowerCaseAscii example_remote_cfg example_draft1 = example_body"
proof -
  have r: "remoteOf example_draft3 = example_flaky" "remoteOf example_draft4 = example_flaky"
    "remoteOf example_draft1 = example_failing"
    by (simp_all add: example_draft3_def example_draft4_def example_draft1_def)
  have t: "truthy (content example_result)"
    "the (content example_result) = js ''Kernel loop: plan, patch, test, stop.''"
    by (simp_all add: example_result_def truthy_def js_def)
  have k: "js ''Kernel loop: plan, patch, test, stop.'' \<noteq> []" by (simp add: js_def)
  show "spec_sanitizedContent toLowerCaseAscii example_remote_cfg example_draft3
     = js ''Kernel loop: plan, patch, test, stop.''"
    using k by (simp add: spec_sanitizedContent_def normalizeDraft_def example_split3 r
        example_flaky_classify guard_content t example_result_content)
  show "spec_sanitizedContent toLowerCaseAscii example_remote_cfg example_draft4
     = js ''Kernel loop: plan, patch, test, stop.''"
    using k by (simp add: spec_sanitizedContent_def normalizeDraft_def example_split3 r
        example_flaky_classify guard_content t example_result_content)
  have n: "content (heuristicNormalize toLowerCaseAscii body) = None" for body
    by (simp add: heuristicNormalize_def defaultFrontmatter_def Let_def)
  show "spec_sanitizedContent toLowerCaseAscii example_remote_cfg example_draft1 = example_body"
    by (simp add: spec_sanitizedContent_def normalizeDraft_def example_split1 r
        example_failing_classify guard_content n truthy_def)
qed

lemma example_hashes:
  "contentHash (js ''Kernel loop: plan, patch, test, stop.'') = js ''ffa40acd''"
  "contentHash example_body = js ''98b93992''"
  by (simp_all add: contentHash_def example_body_def js_def hash_eval toStringHex.simps hexDigit_def)

text \<open>
  Claim C7, amended. The string that the loop takes the fingerprint of is the sanitized content
  of the record, or the body of the draft when the record has no content. For a string
  of at most 4000000 code units the fingerprint is the rolling hash
  \<open>h * 33 + charCode\<close> from 5381, reduced to 32 bits, in hexadecimal. Two drafts
  with the same string have the same fingerprint: a run over the two writes one record,
  the one of the first draft, and logs the second as a duplicate; the same holds for a
  run over any number of drafts with that string; and in any run, a draft that has the
  string of an earlier draft of the run is logged as a duplicate and nothing is written
  for it. Two drafts with different fingerprints are both written.
\<close>

theorem dedup_by_content:
  "(isString s \<and> length s \<le> 4000000 \<longrightarrow> contentHash s = spec_fingerprint s) \<and>
   seenHashes (mainLoop toLowerCase cfg [d1])
     = [contentHash (spec_sanitizedContent toLowerCase cfg d1)] \<and>
   (spec_sanitizedContent toLowerCase cfg d1 = spec_sanitizedContent toLowerCase cfg d2 \<longrightarrow>
      contentHash (spec_sanitizedContent toLowerCase cfg d1)
        = contentHash (spec_sanitizedContent toLowerCase cfg d2) \<and>
      written (mainLoop toLowerCase cfg [d1, d2]) =
        [(outNameOf (fileName d1),
          toFrontmatter (fst (normalizeDraft toLowerCase cfg d1)) @
          trim (spec_sanitizedContent toLowerCase cfg d1) @ [10])] \<and>
      logged (mainLoop toLowerCase cfg [d1, d2]) =
        [Normalized (fileName d1) (outNameOf (fileName d1)), SkipDuplicate (fileName d2)]) \<and>
   ((\<forall>d \<in> set ds. spec_sanitizedContent toLowerCase cfg d = spec_sanitizedContent toLowerCase cfg d1) \<longrightarrow>
      written (mainLoop toLowerCase cfg (d1 # ds)) =
        [(outNameOf (fileName d1),
          toFrontmatter (fst (normalizeDraft toLowerCase cfg d1)) @
          trim (spec_sanitizedContent toLowerCase cfg d1) @ [10])] \<and>
      logged (mainLoop toLowerCase cfg (d1 # ds)) =
        Normalized (fileName d1) (outNameOf (fileName d1)) # map (\<lambda>d. SkipDuplicate (fileName d)) ds) \<and>
   (spec_sanitizedContent toLowerCase cfg d1 = spec_sanitizedContent toLowerCase cfg d2 \<longrightarrow>
      written (mainLoop toLowerCase cfg (pre @ d1 # mid @ [d2]))
        = written (mainLoop toLowerCase cfg (pre @ d1 # mid)) \<and>
      logged (mainLoop toLowerCase cfg (pre @ d1 # mid @ [d2])) =
        logged (mainLoop toLowerCase cfg (pre @ d1 # mid)) @ [SkipDuplicate (fileName d2)]) \<and>
   (contentHash (spec_sanitizedContent toLowerCase cfg d1)
      \<noteq> contentHash (spec_sanitizedContent toLowerCase cfg d2) \<longrightarrow>
      written (mainLoop toLowerCase cfg [d1, d2]) =
        [(outNameOf (fileName d1),
          toFrontmatter (fst (normalizeDraft toLowerCase cfg d1)) @
          trim (spec_sanitizedContent toLowerCase cfg d1) @ [10]),
         (outNameOf (fileName d2),
          toFrontmatter (fst (normalizeDraft toLowerCase cfg d2)) @
          trim (spec_sanitizedContent toLowerCase cfg d2) @ [10])] \<and>
      logged (mainLoop toLowerCase cfg [d1, d2]) =
        [Normalized (fileName d1) (outNameOf (fileName d1)),
         Normalized (fileName d2) (outNameOf (fileName d2))])"
proof -
  have first: "contentHash (spec_sanitizedContent toLowerCase cfg d1) \<notin> set (seenHashes emptyRun)"
    by (simp add: emptyRun_def)
  note f = processDraft_fresh[OF first]
  have one: "seenHashes (mainLoop toLowerCase cfg [d1])
      = [contentHash (spec_sanitizedContent toLowerCase cfg d1)]"
    using f by (simp add: mainLoop_def emptyRun_def)
  have all: "written (mainLoop toLowerCase cfg (d1 # ds)) =
        [(outNameOf (fileName d1),
          toFrontmatter (fst (normalizeDraft toLowerCase cfg d1)) @
          trim (spec_sanitizedContent toLowerCase cfg d1) @ [10])] \<and>
      logged (mainLoop toLowerCase cfg (d1 # ds)) =
        Normalized (fileName d1) (outNameOf (fileName d1)) # map (\<lambda>d. SkipDuplicate (fileName d)) ds"
    if "\<forall>d \<in> set ds. spec_sanitizedContent toLowerCase cfg d = spec_sanitizedContent toLowerCase cfg d1"
    for ds
  proof -
    have "\<forall>d \<in> set ds. contentHash (spec_sanitizedContent toLowerCase cfg d)
        \<in> set (seenHashes (processDraft toLowerCase cfg emptyRun d1))"
      using that f by simp
    from foldl_all_duplicates[OF this] show ?thesis
      using f by (simp add: mainLoop_def emptyRun_def)
  qed
  have later: "written (mainLoop toLowerCase cfg (pre @ d1 # mid @ [d2]))
        = written (mainLoop toLowerCase cfg (pre @ d1 # mid)) \<and>
      logged (mainLoop toLowerCase cfg (pre @ d1 # mid @ [d2])) =
        logged (mainLoop toLowerCase cfg (pre @ d1 # mid)) @ [SkipDuplicate (fileName d2)]"
    if eq: "spec_sanitizedContent toLowerCase cfg d1 = spec_sanitizedContent toLowerCase cfg d2"
  proof -
    define st1 where
      "st1 = processDraft toLowerCase cfg (foldl (processDraft toLowerCase cfg) emptyRun pre) d1"
    have "contentHash (spec_sanitizedContent toLowerCase cfg d1) \<in> set (seenHashes st1)"
      using processDraft_seen[of toLowerCase cfg d1] by (simp add: st1_def)
    then have "contentHash (spec_sanitizedContent toLowerCase cfg d2)
        \<in> set (seenHashes (foldl (processDraft toLowerCase cfg) st1 mid))"
      using foldl_seen_mono[of st1 toLowerCase cfg mid] eq by auto
    from processDraft_duplicate[OF this] show ?thesis
      by (simp add: mainLoop_def st1_def)
  qed
  have both: "written (mainLoop toLowerCase cfg [d1, d2]) =
        [(outNameOf (fileName d1),
          toFrontmatter (fst (normalizeDraft toLowerCase cfg d1)) @
          trim (spec_sanitizedContent toLowerCase cfg d1) @ [10]),
         (outNameOf (fileName d2),
          toFrontmatter (fst (normalizeDraft toLowerCase cfg d2)) @
          trim (spec_sanitizedContent toLowerCase cfg d2) @ [10])] \<and>
      logged (mainLoop toLowerCase cfg [d1, d2]) =
        [Normalized (fileName d1) (outNameOf (fileName d1)),
         Normalized (fileName d2) (outNameOf (fileName d2))]"
    if ne: "contentHash (spec_sanitizedContent toLowerCase cfg d1)
      \<noteq> contentHash (spec_sanitizedContent toLowerCase cfg d2)"
  proof -
    have "contentHash (spec_sanitizedContent toLowerCase cfg d2)
        \<notin> set (seenHashes (processDraft toLowerCase cfg emptyRun d1))"
      using f ne by (simp add: emptyRun_def)
    from processDraft_fresh[OF this] show ?thesis
      using f by (simp add: mainLoop_def emptyRun_def)
  qed
  show ?thesis using one all[of "[d2]"] all later both contentHash_spec by simp
qed

text \<open>
  Two drafts with different bodies for which the remote variant returns the same
  content: one record is written. The first example draft, for which the remote variant
  throws, and one of them: the strings and the fingerprints differ, and two records are
  written.
\<close>

theorem dedup_by_content_witness:
  "isString (js ''Kernel loop: plan, patch, test, stop.'') \<and>
   length (js ''Kernel loop: plan, patch, test, stop.'') \<le> 4000000 \<and>
   contentHash (js ''Kernel loop: plan, patch, test, stop.'')
     = spec_fingerprint (js ''Kernel loop: plan, patch, test, stop.'') \<and>
   contentHash (js ''Kernel loop: plan, patch, test, stop.'') = js ''ffa40acd'' \<and>
   snd (splitFrontmatter (raw example_draft3)) \<noteq> snd (splitFrontmatter (raw example_draft4)) \<and>
   spec_sanitizedContent toLowerCaseAscii example_remote_cfg example_draft3
     = js ''Kernel loop: plan, patch, test, stop.'' \<and>
   spec_sanitizedContent toLowerCaseAscii example_remote_cfg example_draft4
     = js ''Kernel loop: plan, patch, test, stop.'' \<and>
   seenHashes (mainLoop toLowerCaseAscii example_remote_cfg [example_draft3]) = [js ''ffa40acd''] \<and>
   length (written (mainLoop toLowerCaseAscii example_remote_cfg [example_draft3, example_draft4])) = 1 \<and>
   logged (mainLoop toLowerCaseAscii example_remote_cfg [example_draft3, example_draft4]) =
     [Normalized (js ''three.md'') (js ''three.norm.md''), SkipDuplicate (js ''four.md'')] \<and>
   spec_sanitizedContent toLowerCaseAscii example_remote_cfg example_draft1 = example_body \<and>
   contentHash example_body = js ''98b93992'' \<and>
   length (written (mainLoop toLowerCaseAscii example_remote_cfg [example_draft1, example_draft3])) = 2 \<and>
   logged (mainLoop toLowerCaseAscii example_remote_cfg [example_draft1, example_draft3]) =
     [Normalized (js ''one.md'') (js ''one.norm.md''),
      Normalized (js ''three.md'') (js ''three.norm.md'')]"
proof -
  let ?K = "js ''Kernel loop: plan, patch, test, stop.''"
  have s: "isString ?K" "length ?K \<le> 4000000"
    by (simp_all add: isString_def js_def)
  have b: "snd (splitFrontmatter (raw example_draft3)) \<noteq> snd (splitFrontmatter (raw example_draft4))"
    by (simp add: example_split3 js_def)
  note c = example_remote_content
  have o: "outNameOf (js ''one.md'') = js ''one.norm.md''"
    "outNameOf (js ''three.md'') = js ''three.norm.md''"
    by (simp_all add: outNameOf_def endsWith_def js_def)
  have f: "fileName example_draft1 = js ''one.md''" "fileName example_draft3 = js ''three.md''"
    "fileName example_draft4 = js ''four.md''"
    by (simp_all add: example_draft1_def example_draft3_def example_draft4_def)
  have e: "spec_sanitizedContent toLowerCaseAscii example_remote_cfg example_draft3
      = spec_sanitizedContent toLowerCaseAscii example_remote_cfg example_draft4"
    by (simp add: c)
  have ne: "contentHash (spec_sanitizedContent toLowerCaseAscii example_remote_cfg example_draft1)
      \<noteq> contentHash (spec_sanitizedContent toLowerCaseAscii example_remote_cfg example_draft3)"
    by (simp add: c example_hashes) (simp add: js_def)
  note t1 = dedup_by_content[of ?K toLowerCaseAscii example_remote_cfg example_draft3 example_draft4
      "[example_draft4]" "[]" "[]"]
  note t2 = dedup_by_content[of ?K toLowerCaseAscii example_remote_cfg example_draft1 example_draft3
      "[]" "[]" "[]"]
  have 1: "contentHash ?K = spec_fingerprint ?K" using t1 s by blast
  have 2: "seenHashes (mainLoop toLowerCaseAscii example_remote_cfg [example_draft3]) = [js ''ffa40acd'']"
    using t1 by (simp add: c example_hashes)
  have 3: "written (mainLoop toLowerCaseAscii example_remote_cfg [example_draft3, example_draft4]) =
        [(outNameOf (fileName example_draft3),
          toFrontmatter (fst (normalizeDraft toLowerCaseAscii example_remote_cfg example_draft3)) @
          trim (spec_sanitizedContent toLowerCaseAscii example_remote_cfg example_draft3) @ [10])] \<and>
      logged (mainLoop toLowerCaseAscii example_remote_cfg [example_draft3, example_draft4]) =
        [Normalized (fileName example_draft3) (outNameOf (fileName example_draft3)),
         SkipDuplicate (fileName example_draft4)]"
    using t1 e by blast
  have 4: "written (mainLoop toLowerCaseAscii example_remote_cfg [example_draft1, example_draft3]) =
        [(outNameOf (fileName example_draft1),
          toFrontmatter (fst (normalizeDraft toLowerCaseAscii example_remote_cfg example_draft1)) @
          trim (spec_sanitizedContent toLowerCaseAscii example_remote_cfg example_draft1) @ [10]),
         (outNameOf (fileName example_draft3),
          toFrontmatter (fst (normalizeDraft toLowerCaseAscii example_remote_cfg example_draft3)) @
          trim (spec_sanitizedContent toLowerCaseAscii example_remote_cfg example_draft3) @ [10])] \<and>
      logged (mainLoop toLowerCaseAscii example_remote_cfg [example_draft1, example_draft3]) =
        [Normalized (fileName example_draft1) (outNameOf (fileName example_draft1)),
         Normalized (fileName example_draft3) (outNameOf (fileName example_draft3))]"
    using t2 ne by blast
  show ?thesis
    using s b 1 2 3 4 by (simp add: c example_hashes o f)
qed

text \<open>
  A text on which the sums of the code round. After the six code units \<open>!betdz\<close>
  the hash is \<open>2^26 - 1\<close> modulo \<open>2^27\<close>, so each space that follows adds
  \<open>2^31\<close> to it, and after 4194303 spaces the next sum is above \<open>2^53\<close>.
\<close>

lemma toInt32_of_mod:
  assumes "x mod 2 ^ 32 = r" and "r < 2 ^ 31"
  shows "toInt32 x = r"
proof -
  have r0: "0 \<le> r" using assms(1) by auto
  have "(x + 2 ^ 31) mod 2 ^ 32 = (x mod 2 ^ 32 + 2 ^ 31) mod 2 ^ 32"
    by (simp only: mod_add_left_eq)
  also have "\<dots> = (r + 2 ^ 31) mod 2 ^ 32" using assms(1) by simp
  also have "\<dots> = r + 2 ^ 31" using r0 assms(2) by simp
  finally show ?thesis by (simp add: toInt32_def)
qed

lemma shiftLeft5_run:
  assumes "h mod 2 ^ 27 = 2 ^ 26 - 1"
  shows "shiftLeft5 h = 2 ^ 31 - 32"
proof -
  have "(h * 2 ^ 5) mod 2 ^ 32 = 2 ^ 5 * (h mod 2 ^ 27)"
    using mult_mod_right[of "2 ^ 5" h "2 ^ 27"] by (simp add: mult.commute)
  then have "(h * 2 ^ 5) mod 2 ^ 32 = 2 ^ 31 - 32" using assms by simp
  moreover have "(toInt32 h * 2 ^ 5) mod 2 ^ 32 = (h * 2 ^ 5) mod 2 ^ 32"
    by (metis mod_mult_left_eq toInt32_cong)
  ultimately have "(toInt32 h * 2 ^ 5) mod 2 ^ 32 = 2 ^ 31 - 32" by simp
  then show ?thesis unfolding shiftLeft5_def by (rule toInt32_of_mod) simp
qed

lemma exactStep_run:
  assumes "h mod 2 ^ 27 = 2 ^ 26 - 1"
  shows "exactStep h 32 = h + 2 ^ 31 \<and> (h + 2 ^ 31) mod 2 ^ 27 = 2 ^ 26 - 1"
proof -
  have "(h + 2 ^ 31) mod 2 ^ 27 = (h + 16 * 2 ^ 27) mod 2 ^ 27" by simp
  also have "\<dots> = h mod 2 ^ 27" by (simp only: mod_mult_self1)
  finally show ?thesis using assms by (simp add: exactStep_def shiftLeft5_run)
qed

lemma foldl_exactStep_run:
  "h mod 2 ^ 27 = 2 ^ 26 - 1 \<Longrightarrow> foldl exactStep h (replicate n 32) = h + int n * 2 ^ 31"
proof (induction n arbitrary: h)
  case 0
  then show ?case by simp
next
  case (Suc n)
  note e = exactStep_run[OF Suc.prems]
  show ?case using Suc.IH[of "h + 2 ^ 31"] e by (simp add: algebra_simps)
qed

lemma foldl_hashStep_run:
  "h mod 2 ^ 27 = 2 ^ 26 - 1 \<Longrightarrow> 0 \<le> h \<Longrightarrow> h + int n * 2 ^ 31 + 32 < 2 ^ 53 \<Longrightarrow>
   foldl hashStep (Some h) (replicate n 32) = Some (h + int n * 2 ^ 31)"
proof (induction n arbitrary: h)
  case 0
  then show ?case by simp
next
  case (Suc n)
  note e = exactStep_run[OF Suc.prems(1)]
  have "0 \<le> int n * 2 ^ 31" by simp
  then have "\<bar>h\<bar> + 2 ^ 31 + int 32 < 2 ^ 53" using Suc.prems(2,3) by (simp add: algebra_simps)
  then have s: "hashStep (Some h) 32 = Some (h + 2 ^ 31)"
    using hashStep_exact[of h 32] e by simp
  have "foldl hashStep (Some (h + 2 ^ 31)) (replicate n 32) = Some (h + 2 ^ 31 + int n * 2 ^ 31)"
    using e Suc.prems(2,3) by (intro Suc.IH) (simp_all add: algebra_simps)
  then show ?case using s by (simp add: algebra_simps)
qed

lemma example_long_split:
  "example_long = js ''!betdz'' @ replicate 4194303 32 @ (replicate 11 32 @ js ''x'')"
proof -
  have "replicate 4194314 (32::nat) = replicate (4194303 + 11) 32" by simp
  also have "\<dots> = replicate 4194303 32 @ replicate 11 32" by (rule replicate_add)
  finally show ?thesis by (simp add: example_long_def)
qed

lemma example_long_tail: "replicate 11 (32::nat) @ js ''x'' = [32,32,32,32,32,32,32,32,32,32,32,120]"
  by (simp add: js_def numeral_eq_Suc)

lemma example_long_prefix:
  "foldl hashStep (Some 5381) (js ''!betdz'') = Some 1543503871"
  "foldl exactStep 5381 (js ''!betdz'') = 1543503871"
  by (simp_all add: js_def hash_eval)

lemma example_long_code: "foldl hashStep (Some 5381) example_long = Some 9007190882082232"
proof -
  have m: "(1543503871::int) mod 2 ^ 27 = 2 ^ 26 - 1" by simp
  have "foldl hashStep (Some 1543503871) (replicate 4194303 32)
      = Some (1543503871 + int 4194303 * 2 ^ 31)"
    using m by (intro foldl_hashStep_run) simp_all
  then have r: "foldl hashStep (Some 1543503871) (replicate 4194303 32) = Some 9007198650761215"
    by simp
  have t: "foldl hashStep (Some 9007198650761215) [32,32,32,32,32,32,32,32,32,32,32,120]
      = Some 9007190882082232"
    by (simp add: hash_eval)
  show ?thesis
    by (simp only: example_long_split foldl_append example_long_prefix r example_long_tail t)
qed

lemma example_long_spec: "spec_rollingHash example_long mod 2 ^ 32 = 3690987607"
proof -
  let ?f = "\<lambda>h c. h * 33 + int c"
  have m: "(1543503871::int) mod 2 ^ 27 = 2 ^ 26 - 1" by simp
  have "foldl exactStep 5381 (js ''!betdz'' @ replicate 4194303 32)
      = 1543503871 + int 4194303 * 2 ^ 31"
    using foldl_exactStep_run[OF m, of 4194303] by (simp only: foldl_append example_long_prefix)
  then have e: "foldl exactStep 5381 (js ''!betdz'' @ replicate 4194303 32) = 9007198650761215"
    by simp
  have "foldl ?f 5381 (js ''!betdz'' @ replicate 4194303 32) mod 2 ^ 32
      = foldl exactStep 5381 (js ''!betdz'' @ replicate 4194303 32) mod 2 ^ 32"
    by (rule foldl_exactStep_cong[OF refl, symmetric])
  then have "foldl ?f 5381 (js ''!betdz'' @ replicate 4194303 32) mod 2 ^ 32
      = 9007198650761215 mod 2 ^ 32"
    by (simp only: e)
  from foldl_spec_cong[OF this, of "[32,32,32,32,32,32,32,32,32,32,32,120]"]
  have "foldl ?f (foldl ?f 5381 (js ''!betdz'' @ replicate 4194303 32))
          [32,32,32,32,32,32,32,32,32,32,32,120] mod 2 ^ 32 = 3690987607"
    by simp
  then show ?thesis
    by (simp only: spec_rollingHash_def example_long_split example_long_tail foldl_append
        append_assoc[symmetric])
qed

lemma example_long_hex:
  "toStringHex 217275832 = js ''cf35db8''" "toStringHex 3690987607 = js ''dc000057''"
  by (simp_all add: toStringHex.simps hexDigit_def js_def)

lemma trim_id: "s \<noteq> [] \<Longrightarrow> \<not> isSpace (hd s) \<Longrightarrow> \<not> isSpace (last s) \<Longrightarrow> trim s = s"
proof -
  assume a: "s \<noteq> []" "\<not> isSpace (hd s)" "\<not> isSpace (last s)"
  then have 1: "dropWhile isSpace s = s" by (cases s) simp_all
  from a have "\<not> isSpace (hd (rev s))" by (simp add: hd_rev)
  with a(1) have 2: "dropWhile isSpace (rev s) = rev s" by (cases "rev s") simp_all
  show ?thesis by (simp add: trim_def 1 2)
qed

lemma mainLoop_one:
  "seenHashes (mainLoop toLowerCase cfg [d]) = [contentHash (spec_sanitizedContent toLowerCase cfg d)]"
  by (simp add: mainLoop_def processDraft_unfold emptyRun_def)

lemma example_long_content:
  "spec_sanitizedContent toLowerCaseAscii example_local_cfg example_draft5 = example_long"
proof -
  have h: "example_long \<noteq> []" "\<not> isSpace (hd example_long)" "\<not> isSpace (last example_long)"
    by (simp_all add: example_long_def js_def isSpace_def)
  have "\<not> startsWith example_long (js ''---'')" by (simp add: example_long_def js_def)
  then have s: "splitFrontmatter (raw example_draft5) = ([], example_long)"
    by (simp add: splitFrontmatter_def example_draft5_def trim_id[OF h])
  have n: "content (heuristicNormalize toLowerCaseAscii body) = None" for body
    by (simp add: heuristicNormalize_def defaultFrontmatter_def Let_def)
  show ?thesis
    by (simp add: spec_sanitizedContent_def normalizeDraft_def s classify_def example_local_cfg_def
        guard_content n truthy_def)
qed

text \<open>
  Claim C7, as stated, fails. At a draft whose body has 4194321 code units and is its
  sanitized content, the fingerprint that the run takes of it is not the rolling hash
  \<open>h * 33 + charCode\<close> reduced to 32 bits.
\<close>

theorem fingerprint_counterexample:
  "spec_sanitizedContent toLowerCaseAscii example_local_cfg example_draft5 = example_long \<and>
   length example_long = 4194321 \<and> isString example_long \<and>
   seenHashes (mainLoop toLowerCaseAscii example_local_cfg [example_draft5]) = [js ''cf35db8''] \<and>
   contentHash example_long = js ''cf35db8'' \<and>
   spec_fingerprint example_long = js ''dc000057'' \<and>
   contentHash example_long \<noteq> spec_fingerprint example_long"
proof -
  have l: "length example_long = 4194321" by (simp add: example_long_def js_def)
  have s: "isString example_long"
    by (simp add: example_long_def isString_def js_def list_all_iff)
  have c: "contentHash example_long = js ''cf35db8''"
    by (simp add: contentHash_def example_long_code toUint32_def example_long_hex)
  have "nat (spec_rollingHash example_long mod 2 ^ 32) = 3690987607"
    by (simp only: example_long_spec nat_numeral)
  then have f: "spec_fingerprint example_long = js ''dc000057''"
    by (simp only: spec_fingerprint_def example_long_hex)
  have "js ''cf35db8'' \<noteq> js ''dc000057''" by (simp add: js_def)
  then show ?thesis using l s c f by (simp add: example_long_content mainLoop_one)
qed

section \<open>Properties of the frontmatter parsers\<close>

lemma parseLine_skip: "matchKeyValue line = None \<Longrightarrow> parseLine fm line = fm"
  by (simp add: parseLine_def)

lemma foldl_parseLine_filter:
  "foldl parseLine fm ls = foldl parseLine fm (filter (\<lambda>l. matchKeyValue l \<noteq> None) ls)"
proof (induction ls arbitrary: fm)
  case Nil
  then show ?case by simp
next
  case (Cons l ls)
  show ?case
  proof (cases "matchKeyValue l")
    case None
    then show ?thesis using Cons[of fm] by (simp add: parseLine_skip)
  next
    case (Some kv)
    then show ?thesis using Cons[of "parseLine fm l"] by simp
  qed
qed

text \<open>
  Claim C8. \<open>splitFrontmatter\<close> and \<open>parseFrontmatter\<close> are total: they return
  for every text. When the text does not begin with the fence, or no closing fence
  follows, the metadata is empty and the body is the whole trimmed text. The line
  parser leaves out every line that does not have the shape \<open>key: value\<close>; for a line
  that has it, the value is the JSON value of the text when \<open>JSON.parse\<close> accepts
  it and the text without its outer quotation marks when \<open>JSON.parse\<close> throws: the
  exception, the only one that the parser can meet, does not leave it.
\<close>

theorem frontmatter_parsing_total:
  "(\<not> startsWith md (js ''---'') \<or> indexOfFrom md (10 # js ''---'') 3 = None \<longrightarrow>
      splitFrontmatter md = ([], trim md) \<and> parseFrontmatter md = (emptyFm, trim md)) \<and>
   (\<exists>fmRaw body. splitFrontmatter md = (fmRaw, body)) \<and>
   (\<exists>fm body. parseFrontmatter md = (fm, body)) \<and>
   (matchKeyValue line = None \<longrightarrow> parseLine fm line = fm) \<and>
   (matchKeyValue line = Some (k, v) \<and> JSON_parse v = None \<longrightarrow>
      parseLine fm line = setProp fm k (JStr (stripQuotes v))) \<and>
   (matchKeyValue line = Some (k, v) \<and> JSON_parse v = Some j \<longrightarrow>
      parseLine fm line = setProp fm k j) \<and>
   parseLines fmRaw =
     foldl parseLine emptyFm (filter (\<lambda>l. matchKeyValue l \<noteq> None) (splitLines fmRaw))"
proof -
  have a: "splitFrontmatter md = ([], trim md) \<and> parseFrontmatter md = (emptyFm, trim md)"
    if "\<not> startsWith md (js ''---'') \<or> indexOfFrom md (10 # js ''---'') 3 = None"
    using that by (auto simp: splitFrontmatter_def parseFrontmatter_def)
  have b: "\<exists>fmRaw body. splitFrontmatter md = (fmRaw, body)"
    by (cases "splitFrontmatter md") simp
  have c: "\<exists>fm body. parseFrontmatter md = (fm, body)"
    by (cases "parseFrontmatter md") simp
  have d: "parseLines fmRaw =
     foldl parseLine emptyFm (filter (\<lambda>l. matchKeyValue l \<noteq> None) (splitLines fmRaw))"
    unfolding parseLines_def by (rule foldl_parseLine_filter)
  show ?thesis
    using a b c d by (simp add: parseLine_def)
qed

text \<open>
  A text without fence, a text with an opening fence only, a line that is not a key and
  a value, a line whose value is not JSON and a line whose value is.
\<close>

theorem frontmatter_parsing_total_witness:
  "\<not> startsWith (js ''  plain note, no fence '') (js ''---'') \<and>
   splitFrontmatter (js ''  plain note, no fence '') = ([], js ''plain note, no fence'') \<and>
   indexOfFrom (js ''--- never closed'') (10 # js ''---'') 3 = None \<and>
   splitFrontmatter (js ''--- never closed'') = ([], js ''--- never closed'') \<and>
   matchKeyValue (js ''not a key line'') = None \<and>
   parseLine emptyFm (js ''not a key line'') = emptyFm \<and>
   matchKeyValue (js ''title: [oops'') = Some (js ''title'', js ''[oops'') \<and>
   JSON_parse (js ''[oops'') = None \<and>
   parseLine emptyFm (js ''title: [oops'') = setProp emptyFm (js ''title'') (JStr (js ''[oops'')) \<and>
   matchKeyValue (js ''tags: [1]'') = Some (js ''tags'', js ''[1]'') \<and>
   JSON_parse (js ''[1]'') = Some (JArr [JNum (js ''1'')]) \<and>
   parseLine emptyFm (js ''tags: [1]'') = setProp emptyFm (js ''tags'') (JArr [JNum (js ''1'')])"
proof -
  have h1: "\<not> startsWith (js ''  plain note, no fence '') (js ''---'')"
    by (simp add: js_def)
  have t1: "trim (js ''  plain note, no fence '') = js ''plain note, no fence''"
    by (simp add: js_eval)
  have h2: "indexOfFrom (js ''--- never closed'') (10 # js ''---'') 3 = None"
    by (simp add: js_eval)
  have t2: "trim (js ''--- never closed'') = js ''--- never closed''"
    by (simp add: js_eval)
  have h3: "matchKeyValue (js ''not a key line'') = None"
    by (simp add: js_eval fm_eval)
  have h4: "matchKeyValue (js ''title: [oops'') = Some (js ''title'', js ''[oops'')"
    by (simp add: js_eval fm_eval)
  have h5: "JSON_parse (js ''[oops'') = None"
    by (simp add: js_eval json_eval)
  have s5: "stripQuotes (js ''[oops'') = js ''[oops''"
    by (simp add: js_eval fm_eval)
  have h6: "matchKeyValue (js ''tags: [1]'') = Some (js ''tags'', js ''[1]'')"
    by (simp add: js_eval fm_eval)
  have h7: "JSON_parse (js ''[1]'') = Some (JArr [JNum (js ''1'')])"
    by (simp add: js_eval json_eval)
  note a = frontmatter_parsing_total[of "js ''  plain note, no fence ''" "js ''not a key line''" emptyFm]
  note b = frontmatter_parsing_total[of "js ''--- never closed''" "js ''title: [oops''" emptyFm
      "js ''title''" "js ''[oops''"]
  note c = frontmatter_parsing_total[of "[]" "js ''tags: [1]''" emptyFm "js ''tags''" "js ''[1]''"
      "JArr [JNum (js ''1'')]"]
  show ?thesis
    using a b c h1 h2 h3 h4 h5 h6 h7 by (simp add: t1 t2 s5)
qed


section \<open>\<open>JSON.parse\<close> reads what \<open>JSON.stringify\<close> writes\<close>

lemma lexStr_quote: "lexStr (34 # rest) = Some ([], rest)"
  by (cases rest) (simp_all add: lexStr.simps)

lemma lexStr_Nil: "lexStr [] = None"
  by (simp add: lexStr.simps)

lemma lexStr_plain:
  "c \<noteq> 34 \<Longrightarrow> c \<noteq> 92 \<Longrightarrow> \<not> c < 32 \<Longrightarrow> lexStr (c # cs) = consFst c (lexStr cs)"
  by (cases cs) (simp_all add: consFst_def lexStr.simps)

lemma lexStr_escape:
  "e \<noteq> 117 \<Longrightarrow> unescape e = Some x \<Longrightarrow> lexStr (92 # e # cs) = consFst x (lexStr cs)"
  by (simp add: lexStr.simps)

lemma lexStr_unicode:
  "decodeHex4 h1 h2 h3 h4 = Some u \<Longrightarrow>
   lexStr (92 # 117 # h1 # h2 # h3 # h4 # rest) = consFst u (lexStr rest)"
  by (simp add: lexStr.simps)

lemma hexVal_hexDigit: "d < 16 \<Longrightarrow> hexVal (hexDigit d) = Some d"
  by (auto simp: hexVal_def hexDigit_def)

lemma decodeHex4_hex4:
  assumes "c < 65536"
  shows "decodeHex4 (hexDigit (c div 4096 mod 16)) (hexDigit (c div 256 mod 16))
           (hexDigit (c div 16 mod 16)) (hexDigit (c mod 16)) = Some c"
proof -
  have a: "c div 4096 mod 16 = c div 4096" using assms by simp
  have 1: "c = c div 16 * 16 + c mod 16" by simp
  have 2: "c div 16 = c div 256 * 16 + c div 16 mod 16"
    using div_mult_mod_eq[of "c div 16" 16] by (simp add: div_mult2_eq[symmetric])
  have 3: "c div 256 = c div 4096 * 16 + c div 256 mod 16"
    using div_mult_mod_eq[of "c div 256" 16] by (simp add: div_mult2_eq[symmetric])
  have b: "c div 4096 < 16" using assms by simp
  have "c = (c div 4096) * 4096 + (c div 256 mod 16) * 256 + (c div 16 mod 16) * 16 + c mod 16"
    using 1 2 3 by linarith
  then show ?thesis
    using b by (simp add: decodeHex4_def hexVal_hexDigit a)
qed

lemma lexStr_quoteUnit: "lexStr (quoteUnit c @ tail) = consFst c (lexStr tail)"
proof (cases "c = 34 \<or> c = 92 \<or> c = 8 \<or> c = 9 \<or> c = 10 \<or> c = 12 \<or> c = 13")
  case True
  then show ?thesis
    by (auto simp: quoteUnit_def js_def lexStr_escape unescape_def)
next
  case simple: False
  show ?thesis
  proof (cases "c < 32 \<or> isHighSurrogate c \<or> isLowSurrogate c")
    case True
    then have q: "quoteUnit c = 92 # 117 # hex4 c"
      using simple by (simp add: quoteUnit_def js_def)
    have "c < 65536"
      using True by (auto simp: isHighSurrogate_def isLowSurrogate_def)
    then show ?thesis
      using decodeHex4_hex4[of c] by (simp add: q hex4_def lexStr_unicode)
  next
    case False
    then have q: "quoteUnit c = [c]" using simple by (simp add: quoteUnit_def)
    show ?thesis using False simple by (simp add: q lexStr_plain)
  qed
qed

lemma lexStr_quoteUnits: "lexStr (quoteUnits s @ 34 # rest) = Some (s, rest)"
proof (induction s rule: quoteUnits.induct)
  case 1
  then show ?case by (simp add: lexStr_quote)
next
  case (2 c)
  then show ?case by (simp add: lexStr_quoteUnit lexStr_quote consFst_def)
next
  case (3 c d cs)
  show ?case
  proof (cases "isHighSurrogate c \<and> isLowSurrogate d")
    case True
    then have c: "c \<noteq> 34" "c \<noteq> 92" "\<not> c < 32" and d: "d \<noteq> 34" "d \<noteq> 92" "\<not> d < 32"
      by (auto simp: isHighSurrogate_def isLowSurrogate_def)
    have "lexStr (quoteUnits cs @ 34 # rest) = Some (cs, rest)"
      using 3 True by simp
    then show ?thesis using True
      by (simp add: lexStr_plain[OF c] lexStr_plain[OF d] consFst_def)
  next
    case False
    have "lexStr (quoteUnits (d # cs) @ 34 # rest) = Some (d # cs, rest)"
      using 3 False by simp
    moreover have "quoteUnits (c # d # cs) = quoteUnit c @ quoteUnits (d # cs)"
      using False by auto
    ultimately show ?thesis
      by (simp add: lexStr_quoteUnit consFst_def)
  qed
qed

lemma tokenize_stringifyString:
  "tokenize (stringifyString s @ rest) = consTok (TString s) (tokenize rest)"
  using lexStr_quoteUnits[of s rest]
  by (simp add: stringifyString_def)

lemma JSON_parse_stringifyString:
  "JSON_parse (stringifyString s) = Some (JStr s)"
  using tokenize_stringifyString[of s "[]"]
  by (simp add: JSON_parse_def consTok_def startValue_def pushValue_def)

lemma tokenize_elements:
  "tokenize (concat (map (\<lambda>x. 44 # stringifyString x) xs) @ [93]) =
     Some (concat (map (\<lambda>x. [TComma, TString x]) xs) @ [TRBrack])"
proof (induction xs)
  case Nil
  then show ?case by (simp add: consTok_def)
next
  case (Cons x xs)
  then have "tokenize (stringifyString x @ concat (map (\<lambda>x. 44 # stringifyString x) xs) @ [93]) =
     consTok (TString x) (Some (concat (map (\<lambda>x. [TComma, TString x]) xs) @ [TRBrack]))"
    using tokenize_stringifyString[of x] by simp
  then show ?case by (simp add: consTok_def)
qed

lemma join_comma:
  "join (js '','') (x # xs) = x @ concat (map (\<lambda>y. 44 # y) xs)"
  by (induction xs arbitrary: x) (simp_all add: js_def)

lemma tokenize_stringifyArray:
  "tokenize (stringifyArray xs) =
     Some (TLBrack # (case xs of [] \<Rightarrow> [] | x # ys \<Rightarrow> TString x # concat (map (\<lambda>x. [TComma, TString x]) ys)) @ [TRBrack])"
proof (cases xs)
  case Nil
  then show ?thesis by (simp add: stringifyArray_def consTok_def)
next
  case (Cons x ys)
  have "stringifyArray xs = 91 # stringifyString x @ concat (map (\<lambda>y. 44 # stringifyString y) ys) @ [93]"
    by (simp add: stringifyArray_def Cons join_comma map_map comp_def)
  then show ?thesis
    using tokenize_stringifyString[of x] tokenize_elements[of ys]
    by (simp add: Cons consTok_def)
qed

lemma prun_elements:
  "prun (MAfter, [FArr acc]) (concat (map (\<lambda>x. [TComma, TString x]) xs) @ [TRBrack]) =
     Some (MDone (JArr (acc @ map JStr xs)), [])"
  by (induction xs arbitrary: acc) (simp_all add: closeArr_def pushValue_def startValue_def)

lemma JSON_parse_stringifyArray:
  "JSON_parse (stringifyArray xs) = Some (JArr (map JStr xs))"
proof (cases xs)
  case Nil
  then show ?thesis
    by (simp add: JSON_parse_def stringifyArray_def consTok_def startValue_def closeArr_def pushValue_def)
next
  case (Cons x ys)
  show ?thesis
    using prun_elements[of "[JStr x]" ys]
    by (simp add: JSON_parse_def tokenize_stringifyArray Cons startValue_def pushValue_def)
qed


section \<open>What the line parser reads from a serialized record\<close>


lemma startsWith_append: "startsWith (k @ rest) k"
  by (induction k) simp_all

lemma findSub_fenceFree:
  "fenceFree p \<Longrightarrow> findSub (p @ 10 # 45 # 45 # 45 # rest) [10, 45, 45, 45] = Some (length p)"
  by (induction p rule: fenceFree.induct) auto

lemma fenceFree_append: "fenceFree a \<Longrightarrow> fenceFree b \<Longrightarrow> fenceFree (a @ b)"
proof (induction a rule: fenceFree.induct)
  case 1
  then show ?case by simp
next
  case (2 c)
  then show ?case by (cases b) auto
next
  case (3 c d cs)
  then show ?case by simp
qed

lemma fenceFree_noLF: "10 \<notin> set l \<Longrightarrow> fenceFree l"
  by (induction l rule: fenceFree.induct) auto

lemma fenceFree_line: "10 \<notin> set l \<Longrightarrow> l \<noteq> [] \<Longrightarrow> hd l \<noteq> 45 \<Longrightarrow> fenceFree (10 # l)"
  using fenceFree_noLF[of l] by (cases l) auto

lemma list_ex_hex4: "\<not> list_ex isLineTerminator (hex4 c)"
proof -
  have "\<not> isLineTerminator (hexDigit d)" if "d < 16" for d
    using that by (auto simp: isLineTerminator_def hexDigit_def)
  then show ?thesis by (simp add: hex4_def)
qed

lemma quoteUnit_noLT:
  "c \<noteq> 8232 \<Longrightarrow> c \<noteq> 8233 \<Longrightarrow> \<not> list_ex isLineTerminator (quoteUnit c)"
  using list_ex_hex4[of c]
  by (auto simp: quoteUnit_def js_def isLineTerminator_def)

lemma quoteUnits_noLT:
  "noSeparator s \<Longrightarrow> \<not> list_ex isLineTerminator (quoteUnits s)"
proof (induction s rule: quoteUnits.induct)
  case 1
  then show ?case by simp
next
  case (2 c)
  then show ?case using quoteUnit_noLT[of c] by (simp add: noSeparator_def)
next
  case (3 c d cs)
  then have n: "noSeparator (d # cs)" "noSeparator cs" "c \<noteq> 8232" "c \<noteq> 8233"
    by (auto simp: noSeparator_def)
  show ?case
  proof (cases "isHighSurrogate c \<and> isLowSurrogate d")
    case True
    then have "\<not> isLineTerminator c" "\<not> isLineTerminator d"
      by (auto simp: isHighSurrogate_def isLowSurrogate_def isLineTerminator_def)
    moreover have "\<not> list_ex isLineTerminator (quoteUnits cs)"
      using 3(1) True n(2) by blast
    ultimately show ?thesis using True by simp
  next
    case False
    then have q: "quoteUnits (c # d # cs) = quoteUnit c @ quoteUnits (d # cs)" by auto
    have ih: "\<not> list_ex isLineTerminator (quoteUnits (d # cs))"
      using 3(2) False n(1) by blast
    show ?thesis
      unfolding q using ih quoteUnit_noLT[OF n(3,4)] by simp
  qed
qed

lemma stringifyString_noLT:
  "noSeparator s \<Longrightarrow> \<not> list_ex isLineTerminator (stringifyString s)"
  using quoteUnits_noLT[of s] by (simp add: stringifyString_def isLineTerminator_def)

lemma list_ex_join:
  "list_ex P (join sep xs) \<Longrightarrow> list_ex P sep \<or> (\<exists>x \<in> set xs. list_ex P x)"
  by (induction sep xs rule: join.induct) auto

lemma stringifyArray_noLT:
  assumes "list_all noSeparator xs"
  shows "\<not> list_ex isLineTerminator (stringifyArray xs)"
proof
  assume "list_ex isLineTerminator (stringifyArray xs)"
  then have "list_ex isLineTerminator (join (js '','') (map stringifyString xs))"
    by (simp add: stringifyArray_def isLineTerminator_def)
  moreover have "\<not> list_ex isLineTerminator (js '','')"
    by (simp add: js_def isLineTerminator_def)
  ultimately have "\<exists>x \<in> set (map stringifyString xs). list_ex isLineTerminator x"
    using list_ex_join[of isLineTerminator "js '',''" "map stringifyString xs"] by blast
  then obtain x where "x \<in> set xs" "list_ex isLineTerminator (stringifyString x)" by auto
  then show False using assms stringifyString_noLT[of x] by (auto simp: list_all_iff)
qed

lemma noLT_noLF: "\<not> list_ex isLineTerminator s \<Longrightarrow> 10 \<notin> set s \<and> 13 \<notin> set s"
  by (auto simp: list_ex_iff isLineTerminator_def)



lemma fenceFree_block: "list_all goodLine ls \<Longrightarrow> fenceFree (block ls)"
proof (induction ls)
  case Nil
  then show ?case by (simp add: block_def)
next
  case (Cons l ls)
  then have "fenceFree (10 # l)" and "fenceFree (block ls)"
    using fenceFree_line[of l] by (simp_all add: goodLine_def)
  then have "fenceFree ((10 # l) @ block ls)" by (rule fenceFree_append)
  then show ?case by (simp add: block_def)
qed

lemma join_LF_block: "join [10] (l # ls) = l @ block ls"
  by (induction ls arbitrary: l) (simp_all add: block_def)

lemma block_join: "ls \<noteq> [] \<Longrightarrow> block ls = 10 # join [10] ls"
  by (cases ls) (simp_all add: join_LF_block, simp add: block_def)

lemma trim_LF: "trim (10 # s) = trim s"
  by (simp add: trim_def isSpace_def)

lemma hd_join: "ls \<noteq> [] \<Longrightarrow> hd ls \<noteq> [] \<Longrightarrow> hd (join sep ls) = hd (hd ls)"
  by (induction sep ls rule: join.induct) simp_all

lemma join_nonempty: "ls \<noteq> [] \<Longrightarrow> last ls \<noteq> [] \<Longrightarrow> join sep ls \<noteq> []"
  by (induction sep ls rule: join.induct) simp_all

lemma last_join: "ls \<noteq> [] \<Longrightarrow> last ls \<noteq> [] \<Longrightarrow> last (join sep ls) = last (last ls)"
proof (induction sep ls rule: join.induct)
  case (3 sep w v ws)
  then have "join sep (v # ws) \<noteq> []" using join_nonempty[of "v # ws" sep] by simp
  then show ?case using 3 by simp
qed simp_all

lemma trim_block:
  assumes "ls \<noteq> []" "list_all goodLine ls"
  shows "trim (block ls) = join [10] ls"
proof -
  have h: "goodLine (hd ls)" and l: "goodLine (last ls)"
    using assms by (simp_all add: list_all_iff)
  have 1: "join [10] ls \<noteq> []" using join_nonempty[OF assms(1)] l by (simp add: goodLine_def)
  have 2: "\<not> isSpace (hd (join [10] ls))"
    using hd_join[OF assms(1), of "[10]"] h by (simp add: goodLine_def)
  have 3: "\<not> isSpace (last (join [10] ls))"
    using last_join[OF assms(1), of "[10]"] l by (simp add: goodLine_def)
  show ?thesis by (simp add: block_join[OF assms(1)] trim_LF trim_id[OF 1 2 3])
qed

lemma splitOn_noSep: "d \<notin> set l \<Longrightarrow> splitOn d l = [l]"
  by (induction l) (auto simp: Let_def)

lemma splitOn_append: "d \<notin> set l \<Longrightarrow> splitOn d (l @ d # rest) = l # splitOn d rest"
  by (induction l) (auto simp: Let_def)

lemma splitOn_join:
  "ls \<noteq> [] \<Longrightarrow> list_all (\<lambda>l. 10 \<notin> set l) ls \<Longrightarrow> splitOn 10 (join [10] ls) = ls"
proof (induction ls)
  case Nil
  then show ?case by simp
next
  case (Cons l ls)
  show ?case
  proof (cases ls)
    case Nil
    then show ?thesis using Cons.prems by (simp add: splitOn_noSep)
  next
    case (Cons v ws)
    then have "splitOn 10 (join [10] ls) = ls" using Cons.IH Cons.prems by simp
    then show ?thesis
      using Cons Cons.prems splitOn_append[of 10 l "join [10] (v # ws)"] by simp
  qed
qed

lemma dropCR_id: "l \<noteq> [] \<Longrightarrow> \<not> isSpace (last l) \<Longrightarrow> dropCR l = l"
  by (auto simp: dropCR_def isSpace_def)

lemma splitLines_join:
  assumes "ls \<noteq> []" "list_all goodLine ls"
  shows "splitLines (join [10] ls) = ls"
proof -
  have "list_all (\<lambda>l. 10 \<notin> set l) ls" using assms(2) by (simp add: list_all_iff goodLine_def)
  then have s: "splitOn 10 (join [10] ls) = ls" using splitOn_join[OF assms(1)] by simp
  have "map dropCR (butlast ls) = butlast ls"
  proof (rule map_idI)
    fix l assume "l \<in> set (butlast ls)"
    then have "l \<in> set ls" by (rule in_set_butlastD)
    then have "goodLine l" using assms(2) by (simp add: list_all_iff)
    then show "dropCR l = l" using dropCR_id by (simp add: goodLine_def)
  qed
  then show ?thesis using assms(1) by (simp add: splitLines_def s)
qed

lemma parseFrontmatter_block:
  assumes "ls \<noteq> []" "list_all goodLine ls"
  shows "parseFrontmatter (js ''---'' @ block ls @ 10 # js ''---'' @ rest) =
           (foldl parseLine emptyFm ls, trim rest)"
    and "splitFrontmatter (js ''---'' @ block ls @ 10 # js ''---'' @ rest) =
           (join [10] ls, trim rest)"
proof -
  let ?md = "js ''---'' @ block ls @ 10 # js ''---'' @ rest"
  have sw: "startsWith ?md (js ''---'')" by (rule startsWith_append)
  have d3: "drop 3 ?md = block ls @ 10 # 45 # 45 # 45 # rest" by (simp add: js_def)
  have ix: "indexOfFrom ?md (10 # js ''---'') 3 = Some (length (block ls) + 3)"
    using findSub_fenceFree[OF fenceFree_block[OF assms(2)], of rest]
    by (simp add: indexOfFrom_def d3) (simp add: js_def)
  have sl: "slice ?md 3 (length (block ls) + 3) = block ls"
    by (simp add: slice_def js_def)
  have sf: "sliceFrom ?md (length (block ls) + 3 + 4) = rest"
  proof -
    have "length (js ''---'' @ block ls @ 10 # js ''---'') = length (block ls) + 3 + 4"
      by (simp add: js_def)
    then have "drop (length (block ls) + 3 + 4) ((js ''---'' @ block ls @ 10 # js ''---'') @ rest) = rest"
      by (metis append_eq_conv_conj)
    then show ?thesis by (simp add: sliceFrom_def)
  qed
  have "parseFrontmatter ?md =
      (parseLines (trim (slice ?md 3 (length (block ls) + 3))),
       trim (sliceFrom ?md (length (block ls) + 3 + 4)))"
    using sw by (simp add: parseFrontmatter_def ix)
  also have "\<dots> = (parseLines (join [10] ls), trim rest)"
    by (simp only: sl sf trim_block[OF assms])
  also have "\<dots> = (foldl parseLine emptyFm ls, trim rest)"
    by (simp only: parseLines_def splitLines_join[OF assms])
  finally show "parseFrontmatter ?md = (foldl parseLine emptyFm ls, trim rest)" .
  have "splitFrontmatter ?md =
      (trim (slice ?md 3 (length (block ls) + 3)),
       trim (sliceFrom ?md (length (block ls) + 3 + 4)))"
    using sw by (simp add: splitFrontmatter_def ix)
  also have "\<dots> = (join [10] ls, trim rest)"
    by (simp only: sl sf trim_block[OF assms])
  finally show "splitFrontmatter ?md = (join [10] ls, trim rest)" .
qed



lemma toFrontmatter_block:
  "toFrontmatter obj = js ''---'' @ block (frontLines obj) @ 10 # js ''---'' @ [10]"
  by (simp add: toFrontmatter_def frontLines_def block_def)

lemma matchKeyValue_line:
  assumes "list_all isKeyChar key" "key \<noteq> []" "v \<noteq> []" "\<not> isSpace (hd v)"
    "\<not> list_ex isLineTerminator v"
  shows "matchKeyValue (key @ 58 # 32 # v) = Some (key, v)"
proof -
  have k: "\<not> isKeyChar 58" by (simp add: isKeyChar_def)
  have t: "takeWhile isKeyChar (key @ 58 # 32 # v) = key"
    using assms(1) k by (simp add: takeWhile_append2 list_all_iff)
  have d: "dropWhile isKeyChar (key @ 58 # 32 # v) = 58 # 32 # v"
    using assms(1) k by (simp add: dropWhile_append2 list_all_iff)
  have sp: "isSpace 32" by (simp add: isSpace_def)
  have s: "dropWhile isSpace (32 # v) = v"
    using assms(3,4) sp by (cases v) simp_all
  show ?thesis
    using assms(2,5) by (simp add: matchKeyValue_def t d s del: dropWhile.simps)
qed

lemma goodLine_kv:
  assumes "key \<noteq> []" "hd key \<noteq> 45" "\<not> isSpace (hd key)" "10 \<notin> set key"
    "v \<noteq> []" "\<not> isSpace (last v)" "\<not> list_ex isLineTerminator v"
  shows "goodLine (key @ 58 # 32 # v)"
  using assms noLT_noLF[of v] by (simp add: goodLine_def)

lemma stringifyString_ends:
  "stringifyString s \<noteq> []" "hd (stringifyString s) = 34" "last (stringifyString s) = 34"
  by (simp_all add: stringifyString_def)

lemma stringifyArray_ends:
  "stringifyArray xs \<noteq> []" "hd (stringifyArray xs) = 91" "last (stringifyArray xs) = 93"
  by (simp_all add: stringifyArray_def)

lemma parseLine_string:
  assumes "list_all isKeyChar key" "key \<noteq> []" "noSeparator s"
  shows "parseLine fm (key @ 58 # 32 # stringifyString s) = setProp fm key (JStr s)"
proof -
  have "matchKeyValue (key @ 58 # 32 # stringifyString s) = Some (key, stringifyString s)"
    using assms stringifyString_noLT[of s]
    by (intro matchKeyValue_line) (simp_all add: stringifyString_ends isSpace_def)
  then show ?thesis by (simp add: parseLine_def JSON_parse_stringifyString)
qed

lemma parseLine_array:
  assumes "list_all isKeyChar key" "key \<noteq> []" "list_all noSeparator xs"
  shows "parseLine fm (key @ 58 # 32 # stringifyArray xs) = setProp fm key (JArr (map JStr xs))"
proof -
  have "matchKeyValue (key @ 58 # 32 # stringifyArray xs) = Some (key, stringifyArray xs)"
    using assms stringifyArray_noLT[of xs]
    by (intro matchKeyValue_line) (simp_all add: stringifyArray_ends isSpace_def)
  then show ?thesis by (simp add: parseLine_def JSON_parse_stringifyArray)
qed

lemma goodLine_string:
  assumes "key \<noteq> []" "hd key \<noteq> 45" "\<not> isSpace (hd key)" "10 \<notin> set key" "noSeparator s"
  shows "goodLine (key @ 58 # 32 # stringifyString s)"
  using assms stringifyString_noLT[of s]
  by (intro goodLine_kv) (simp_all add: stringifyString_ends isSpace_def)

lemma goodLine_array:
  assumes "key \<noteq> []" "hd key \<noteq> 45" "\<not> isSpace (hd key)" "10 \<notin> set key" "list_all noSeparator xs"
  shows "goodLine (key @ 58 # 32 # stringifyArray xs)"
  using assms stringifyArray_noLT[of xs]
  by (intro goodLine_kv) (simp_all add: stringifyArray_ends isSpace_def)

lemma key_facts:
  "js ''title: '' = js ''title'' @ [58, 32]" "js ''lane: '' = js ''lane'' @ [58, 32]"
  "js ''status: '' = js ''status'' @ [58, 32]" "js ''tags: '' = js ''tags'' @ [58, 32]"
  "js ''summary: '' = js ''summary'' @ [58, 32]"
  "js ''publish_targets: '' = js ''publish_targets'' @ [58, 32]"
  "js ''source_refs: []'' = js ''source_refs'' @ 58 # 32 # stringifyArray []"
  by (simp_all add: js_def stringifyArray_def)

lemma key_chars:
  "list_all isKeyChar (js ''title'')" "list_all isKeyChar (js ''lane'')"
  "list_all isKeyChar (js ''status'')" "list_all isKeyChar (js ''tags'')"
  "list_all isKeyChar (js ''summary'')" "list_all isKeyChar (js ''publish_targets'')"
  "list_all isKeyChar (js ''source_refs'')"
  by (simp_all add: js_def isKeyChar_def)

lemma key_shape:
  "k \<in> {js ''title'', js ''lane'', js ''status'', js ''tags'', js ''summary'',
         js ''publish_targets'', js ''source_refs''} \<Longrightarrow>
   k \<noteq> [] \<and> hd k \<noteq> 45 \<and> \<not> isSpace (hd k) \<and> 10 \<notin> set k \<and> k \<noteq> js ''__proto__''"
  by (auto simp: js_def isSpace_def)

lemma goodLines_frontLines:
  assumes "fieldsClean obj"
  shows "list_all goodLine (frontLines obj)"
  using assms
  by (simp add: frontLines_def fieldsClean_def key_facts goodLine_string goodLine_array key_shape)

lemma parse_frontLines:
  assumes "fieldsClean obj"
  shows "foldl parseLine emptyFm (frontLines obj) = fmOf obj"
  using assms
  by (simp add: frontLines_def fieldsClean_def key_facts parseLine_string parseLine_array key_chars
      key_shape setProp_def emptyFm_def fmOf_def)

lemma parseFrontmatter_toFrontmatter:
  assumes "fieldsClean obj"
  shows "parseFrontmatter (toFrontmatter obj @ rest) = (fmOf obj, trim (10 # rest))"
    and "splitFrontmatter (toFrontmatter obj @ rest) = (join [10] (frontLines obj), trim (10 # rest))"
    and "parseLines (join [10] (frontLines obj)) = fmOf obj"
proof -
  have ne: "frontLines obj \<noteq> []" by (simp add: frontLines_def)
  note g = goodLines_frontLines[OF assms]
  have md: "toFrontmatter obj @ rest = js ''---'' @ block (frontLines obj) @ 10 # js ''---'' @ (10 # rest)"
    by (simp add: toFrontmatter_block)
  show "parseFrontmatter (toFrontmatter obj @ rest) = (fmOf obj, trim (10 # rest))"
    unfolding md by (simp only: parseFrontmatter_block(1)[OF ne g] parse_frontLines[OF assms])
  show "splitFrontmatter (toFrontmatter obj @ rest) = (join [10] (frontLines obj), trim (10 # rest))"
    unfolding md by (simp only: parseFrontmatter_block(2)[OF ne g])
  show "parseLines (join [10] (frontLines obj)) = fmOf obj"
    by (simp only: parseLines_def splitLines_join[OF ne g] parse_frontLines[OF assms])
qed


section \<open>The round trip through the persisted text\<close>

lemma parseFrontmatter_split:
  "parseFrontmatter md = (parseLines (fst (splitFrontmatter md)), snd (splitFrontmatter md))"
proof -
  have e: "parseLines [] = emptyFm"
    by (simp add: parseLines_def splitLines_def parseLine_def matchKeyValue_def)
  show ?thesis
    by (simp add: parseFrontmatter_def splitFrontmatter_def e split: option.splits)
qed

lemma isSlug_noSeparator: "isSlug s \<Longrightarrow> noSeparator s"
  by (auto simp: isSlug_def noSeparator_def list_all_iff isSlugChar_def)

lemma allowedTargets_facts:
  "p \<in> set allowedTargets \<Longrightarrow> noSeparator p \<and> p \<noteq> []"
  by (auto simp: allowedTargets_def noSeparator_def js_def)

lemma allowedLanes_facts:
  "l \<in> set allowedLanes \<Longrightarrow> noSeparator l \<and> l \<noteq> [] \<and> filter (\<lambda>c. c \<noteq> 34) l = l"
  by (auto simp: allowedLanes_def noSeparator_def js_def)

lemma allowedStatus_facts:
  "s \<in> set allowedStatus \<Longrightarrow> noSeparator s \<and> s \<noteq> [] \<and> filter (\<lambda>c. c \<noteq> 34) s = s"
  by (auto simp: allowedStatus_def noSeparator_def js_def)

lemma orElse_Some: "s \<noteq> [] \<Longrightarrow> orElse (Some s) d = s"
  by (simp add: orElse_def truthy_def)

lemma trim_Nil: "trim [] = []"
  by (simp add: trim_def)

lemma keys_distinct:
  "distinct [js ''title'', js ''lane'', js ''status'', js ''tags'', js ''source_refs'',
     js ''summary'', js ''publish_targets'']"
  by (simp add: js_def)

lemma getProp_fmOf:
  "getProp (fmOf obj) (js ''title'') = Some (JStr (orElse (title obj) []))"
  "getProp (fmOf obj) (js ''lane'') = Some (JStr (orElse (lane obj) (js ''A'')))"
  "getProp (fmOf obj) (js ''status'') = Some (JStr (orElse (status obj) (js ''draft'')))"
  "getProp (fmOf obj) (js ''tags'') =
     Some (JArr (map JStr (case tags obj of None \<Rightarrow> [] | Some ts \<Rightarrow> ts)))"
  "getProp (fmOf obj) (js ''source_refs'') = Some (JArr [])"
  "getProp (fmOf obj) (js ''summary'') = Some (JStr (orElse (summary obj) []))"
  "getProp (fmOf obj) (js ''publish_targets'') =
     Some (JArr (map JStr (case publish_targets obj of None \<Rightarrow> [js ''github''] | Some ps \<Rightarrow> ps)))"
  using keys_distinct by (simp_all add: getProp_def fmOf_def)

lemma valid_fieldsClean:
  assumes "spec_validRecord r" "noSeparator (the (title r))" "noSeparator (the (summary r))"
  shows "fieldsClean r"
proof -
  from assms(1) obtain t l st ts refs sm ps where
    f: "title r = Some t" "lane r = Some l" "status r = Some st" "tags r = Some ts"
       "source_refs r = Some refs" "summary r = Some sm" "publish_targets r = Some ps"
    and v: "trim t \<noteq> []" "l \<in> set allowedLanes" "st \<in> set allowedStatus" "list_all isSlug ts"
       "trim sm \<noteq> []" "list_all (\<lambda>p. p \<in> set allowedTargets) ps"
    by (auto simp: spec_validRecord_def split: option.splits)
  have "t \<noteq> []" "sm \<noteq> []" using v(1,5) trim_Nil by auto
  moreover have "list_all noSeparator ts"
    using v(4) isSlug_noSeparator by (auto simp: list_all_iff)
  moreover have "list_all noSeparator ps"
    using v(6) allowedTargets_facts by (auto simp: list_all_iff)
  ultimately show ?thesis
    using f assms(2,3) allowedLanes_facts[OF v(2)] allowedStatus_facts[OF v(3)]
    by (simp add: fieldsClean_def orElse_Some)
qed

lemma example_record_valid: "spec_validRecord example_record"
  by (simp add: spec_validRecord_def example_record_def wordCount_def allowedLanes_def
      allowedStatus_def allowedTargets_def isSlug_def isSlugChar_def js_eval)

lemma example_record_clean:
  "noSeparator (the (title example_record))" "noSeparator (the (summary example_record))"
  by (simp_all add: example_record_def noSeparator_def js_def)

text \<open>
  Claim C2, as stated, fails: \<open>toFrontmatter\<close> writes \<open>source_refs: []\<close> whatever
  the record holds, so the sources of a valid record that names one are not read back.
\<close>

theorem round_trip_counterexample:
  "spec_validRecord example_record \<and> \<not> spec_roundTrip example_record example_body \<and>
   \<not> spec_roundTripSplit example_record example_body \<and>
   source_refs example_record = Some [js ''notes/a.md''] \<and>
   getProp (fst (parseFrontmatter (persistedText example_record example_body))) (js ''source_refs'')
     = Some (JArr [])"
proof -
  note c = valid_fieldsClean[OF example_record_valid example_record_clean]
  have p: "fst (parseFrontmatter (persistedText example_record example_body)) = fmOf example_record"
    using parseFrontmatter_toFrontmatter(1)[OF c] by (simp add: persistedText_def)
  have s: "parseLines (fst (splitFrontmatter (persistedText example_record example_body)))
      = fmOf example_record"
    using parseFrontmatter_split[of "persistedText example_record example_body"] p by simp
  have r: "source_refs example_record = Some [js ''notes/a.md'']"
    by (simp add: example_record_def)
  show ?thesis
    using example_record_valid
    by (simp add: spec_roundTrip_def spec_roundTripSplit_def p s recordFields_def getProp_fmOf r)
qed

text \<open>
  Claim C2, amended. For every valid record whose \<open>source_refs\<close> is empty and whose
  title and summary have no line separator U+2028 and no paragraph separator U+2029,
  splitting the persisted text and reading the metadata block with the line parser
  gives every field of the record back with its value: title, lane, status, tags,
  source_refs, summary and publish_targets; \<open>parseFrontmatter\<close> on the persisted text
  gives the same.
\<close>

theorem round_trip_without_source_refs:
  assumes "spec_validRecord r" and "source_refs r = Some []"
    and "noSeparator (the (title r))" and "noSeparator (the (summary r))"
  shows "spec_roundTripSplit r body \<and> spec_roundTrip r body"
proof -
  from assms(1) obtain t l st ts refs sm ps where
    f: "title r = Some t" "lane r = Some l" "status r = Some st" "tags r = Some ts"
       "source_refs r = Some refs" "summary r = Some sm" "publish_targets r = Some ps"
    and v: "trim t \<noteq> []" "l \<in> set allowedLanes" "st \<in> set allowedStatus" "trim sm \<noteq> []"
    by (auto simp: spec_validRecord_def split: option.splits)
  have ne: "t \<noteq> []" "sm \<noteq> []" "l \<noteq> []" "st \<noteq> []"
    using v trim_Nil allowedLanes_facts[OF v(2)] allowedStatus_facts[OF v(3)] by auto
  note c = valid_fieldsClean[OF assms(1,3,4)]
  have p: "fst (parseFrontmatter (persistedText r body)) = fmOf r"
    using parseFrontmatter_toFrontmatter(1)[OF c] by (simp add: persistedText_def)
  have s: "parseLines (fst (splitFrontmatter (persistedText r body))) = fmOf r"
    using parseFrontmatter_split[of "persistedText r body"] p by simp
  have "list_all (\<lambda>(k, v). getProp (fmOf r) k = v) (recordFields r)"
    using f ne assms(2) by (simp add: recordFields_def getProp_fmOf orElse_Some)
  then show ?thesis
    by (simp add: spec_roundTrip_def spec_roundTripSplit_def p s)
qed

text \<open>The example record without its source.\<close>

theorem round_trip_without_source_refs_witness:
  "spec_validRecord example_record_no_refs \<and> source_refs example_record_no_refs = Some [] \<and>
   noSeparator (the (title example_record_no_refs)) \<and>
   noSeparator (the (summary example_record_no_refs)) \<and>
   spec_roundTripSplit example_record_no_refs example_body \<and>
   spec_roundTrip example_record_no_refs example_body"
proof -
  have v: "spec_validRecord example_record_no_refs"
    using example_record_valid
    by (simp add: spec_validRecord_def example_record_no_refs_def example_record_def)
  have r: "source_refs example_record_no_refs = Some []"
    by (simp add: example_record_no_refs_def)
  have n: "noSeparator (the (title example_record_no_refs))"
    "noSeparator (the (summary example_record_no_refs))"
    using example_record_clean by (simp_all add: example_record_no_refs_def)
  show ?thesis
    using round_trip_without_source_refs[OF v r n, of example_body] v r n by simp
qed


section \<open>Trimming and counting words\<close>


lemma trim_append_space: "isSpace c \<Longrightarrow> trim (s @ [c]) = trim s"
proof (cases "\<forall>x \<in> set s. isSpace x")
  case True
  assume c: "isSpace c"
  from True have d: "dropWhile isSpace s = []" by simp
  from True c have e: "dropWhile isSpace (s @ [c]) = []" by simp
  show ?thesis by (simp only: trim_def d e)
next
  case False
  assume c: "isSpace c"
  from False obtain x where "x \<in> set s" "\<not> isSpace x" by blast
  then have "dropWhile isSpace (s @ [c]) = dropWhile isSpace s @ [c]"
    by (rule dropWhile_append1)
  then show ?thesis using c by (simp add: trim_def)
qed

lemma trim_ends:
  assumes "trim s \<noteq> []"
  shows "\<not> isSpace (hd (trim s))" and "\<not> isSpace (last (trim s))"
proof -
  define d where "d = dropWhile isSpace s"
  define e where "e = dropWhile isSpace (rev d)"
  have t: "trim s = rev e" by (simp add: trim_def d_def e_def)
  with assms have ne: "e \<noteq> []" by simp
  then have "\<not> isSpace (hd e)" unfolding e_def by (rule hd_dropWhile)
  then show "\<not> isSpace (last (trim s))" using ne by (simp add: t last_rev)
  from ne have dn: "d \<noteq> []" by (auto simp: e_def)
  then have hd: "\<not> isSpace (hd d)" unfolding d_def by (rule hd_dropWhile)
  have "last e = last (rev d)"
    using ne unfolding e_def by (metis append_is_Nil_conv last_appendR takeWhile_dropWhile_id)
  then have "last e = hd d" using dn by (simp add: last_rev)
  then show "\<not> isSpace (hd (trim s))" using ne hd by (simp add: t hd_rev)
qed

lemma trim_trim: "trim (trim s) = trim s"
proof (cases "trim s = []")
  case True
  then show ?thesis by (simp add: trim_Nil)
next
  case False
  then show ?thesis using trim_ends[OF False] by (simp add: trim_id)
qed

lemma trim_bodyOut: "trim (10 # trim s @ [10]) = trim s"
proof -
  have "isSpace 10" by (simp add: isSpace_def)
  then show ?thesis by (simp add: trim_LF trim_append_space trim_trim)
qed

lemma trim_prefix: "\<exists>k. trim s = take k (dropWhile isSpace s)"
proof -
  define d where "d = dropWhile isSpace s"
  have "rev d = takeWhile isSpace (rev d) @ dropWhile isSpace (rev d)" by simp
  then have "d = rev (dropWhile isSpace (rev d)) @ rev (takeWhile isSpace (rev d))"
    by (metis rev_append rev_rev_ident)
  then have "rev (dropWhile isSpace (rev d)) = take (length (rev (dropWhile isSpace (rev d)))) d"
    by (metis append_eq_conv_conj)
  then show ?thesis unfolding trim_def d_def by blast
qed

lemma length_trim: "length (trim s) \<le> length s"
proof -
  obtain k where "trim s = take k (dropWhile isSpace s)" using trim_prefix by blast
  then have "length (trim s) \<le> length (dropWhile isSpace s)" by simp
  then show ?thesis using length_dropWhile_le[of isSpace s] by linarith
qed

lemma set_trim: "set (trim s) \<subseteq> set s"
proof -
  obtain k where "trim s = take k (dropWhile isSpace s)" using trim_prefix by blast
  then show ?thesis using set_take_subset set_dropWhileD by fastforce
qed

lemma wordStarts_dropWhile: "wordStarts True (dropWhile isSpace s) = wordStarts True s"
  by (induction s) simp_all

lemma splitWs_nonempty: "splitWs s \<noteq> []"
  by (induction s rule: splitWs.induct) (auto simp: Let_def)

lemma wordStarts_splitWs:
  "length (filter (\<lambda>w. w \<noteq> []) (splitWs s)) = wordStarts True s \<and>
   length (filter (\<lambda>w. w \<noteq> []) (tl (splitWs s))) = wordStarts False s"
proof (induction s rule: splitWs.induct)
  case 1
  then show ?case by simp
next
  case (2 c cs)
  show ?case
  proof (cases "isSpace c")
    case True
    then show ?thesis using 2(1) by (simp add: wordStarts_dropWhile)
  next
    case False
    then show ?thesis using 2(2) by (simp add: Let_def)
  qed
qed

lemma wordCount_wordStarts: "wordCount s = wordStarts True s"
  by (simp add: wordCount_def wordStarts_splitWs)

lemma wordStarts_False_le: "wordStarts False s \<le> wordStarts True s"
  by (cases s) simp_all

lemma wordStarts_take: "wordStarts p (take n s) \<le> wordStarts p s"
proof (induction s arbitrary: n p)
  case Nil
  then show ?case by simp
next
  case (Cons c cs)
  show ?case
  proof (cases n)
    case 0
    then show ?thesis by simp
  next
    case (Suc m)
    then show ?thesis using Cons[of True m] Cons[of False m] by simp
  qed
qed

lemma wordStarts_map_cong:
  "map isSpace a = map isSpace b \<Longrightarrow> wordStarts p a = wordStarts p b"
proof (induction a arbitrary: b p)
  case Nil
  then show ?case by simp
next
  case (Cons c cs)
  then obtain d ds where b: "b = d # ds" "isSpace c = isSpace d" "map isSpace cs = map isSpace ds"
    by (cases b) auto
  then show ?case using Cons.IH[OF b(3)] by simp
qed

lemma isSpace_upperCU: "isWord c \<Longrightarrow> \<not> isSpace (upperCU c) \<and> \<not> isSpace c"
  by (auto simp: isWord_def isSpace_def upperCU_def)

lemma map_isSpace_titleCase: "map isSpace (titleCase s) = map isSpace s"
proof (induction s rule: titleCase.induct)
  case 1
  then show ?case by simp
next
  case (2 c cs)
  show ?case
  proof (cases "isWord c")
    case True
    have "map isSpace (takeWhile (\<lambda>x. \<not> isSpace x) cs) @ map isSpace (dropWhile (\<lambda>x. \<not> isSpace x) cs)
        = map isSpace cs"
      by (metis map_append takeWhile_dropWhile_id)
    then show ?thesis using True 2(1) isSpace_upperCU[OF True] by simp
  next
    case False
    then show ?thesis using 2(2) by simp
  qed
qed

lemma wordStarts_titleCase: "wordStarts p (titleCase s) = wordStarts p s"
  by (rule wordStarts_map_cong) (rule map_isSpace_titleCase)

lemma wordStarts_trim: "wordStarts True (trim s) \<le> wordStarts True s"
proof -
  obtain k where "trim s = take k (dropWhile isSpace s)" using trim_prefix by blast
  then show ?thesis
    using wordStarts_take[of True k "dropWhile isSpace s"] by (simp add: wordStarts_dropWhile)
qed

lemma wordStarts_append:
  "wordStarts p (a @ b) \<le> wordStarts p a + wordStarts True b"
proof (induction a arbitrary: p)
  case Nil
  then show ?case using wordStarts_False_le[of b] by (cases p) simp_all
next
  case (Cons c cs)
  then show ?case using Cons[of True] Cons[of False] by simp
qed

lemma wordStarts_False_noSpace: "\<not> list_ex isSpace w \<Longrightarrow> wordStarts False w = 0"
  by (induction w) simp_all

lemma wordStarts_noSpace: "\<not> list_ex isSpace w \<Longrightarrow> wordStarts p w \<le> 1"
  using wordStarts_False_noSpace[of "tl w"] by (cases w) simp_all

lemma splitWs_noSpace: "w \<in> set (splitWs s) \<Longrightarrow> \<not> list_ex isSpace w"
proof (induction s arbitrary: w rule: splitWs.induct)
  case 1
  then show ?case by simp
next
  case (2 c cs)
  show ?case
  proof (cases "isSpace c")
    case True
    then show ?thesis using 2(1)[OF True] 2(3) by auto
  next
    case False
    have ne: "splitWs cs \<noteq> []" by (rule splitWs_nonempty)
    from 2(3) False have "w = c # hd (splitWs cs) \<or> w \<in> set (tl (splitWs cs))"
      by (simp add: Let_def)
    then show ?thesis
    proof
      assume "w = c # hd (splitWs cs)"
      moreover have "\<not> list_ex isSpace (hd (splitWs cs))"
        using 2(2)[OF False, of "hd (splitWs cs)"] ne by simp
      ultimately show ?thesis using False by simp
    next
      assume "w \<in> set (tl (splitWs cs))"
      then have "w \<in> set (splitWs cs)" using ne by (metis list.set_sel(2))
      then show ?thesis using 2(2)[OF False] by simp
    qed
  qed
qed

lemma wordStarts_join:
  assumes "\<forall>w \<in> set ws. \<not> list_ex isSpace w"
  shows "wordStarts True (join (js '' '') ws) \<le> length ws"
  using assms
proof (induction "js '' ''" ws rule: join.induct)
  case 1
  then show ?case by simp
next
  case (2 w)
  then show ?case using wordStarts_noSpace[of w True] by simp
next
  case (3 w v ws)
  have "wordStarts True (w @ js '' '' @ join (js '' '') (v # ws))
      \<le> wordStarts True w + wordStarts True (js '' '' @ join (js '' '') (v # ws))"
    by (rule wordStarts_append)
  moreover have "wordStarts True (js '' '' @ join (js '' '') (v # ws))
      = wordStarts True (join (js '' '') (v # ws))"
    by (simp add: js_def isSpace_def)
  moreover have "wordStarts True w \<le> 1" using 3(2) wordStarts_noSpace[of w True] by simp
  moreover have "wordStarts True (join (js '' '') (v # ws)) \<le> length (v # ws)"
    using 3 by simp
  ultimately show ?case by simp
qed


section \<open>What the guard block ensures for the title\<close>


lemma list_all_titleCase:
  assumes "\<And>c. P c \<Longrightarrow> isWord c \<Longrightarrow> P (upperCU c)"
  shows "list_all P s \<Longrightarrow> list_all P (titleCase s)"
proof (induction s rule: titleCase.induct)
  case 1
  then show ?case by simp
next
  case (2 c cs)
  show ?case
  proof (cases "isWord c")
    case True
    have a: "list_all P (takeWhile (\<lambda>x. \<not> isSpace x) cs)"
      using 2(3) by (auto simp: list_all_iff dest: set_takeWhileD)
    have "list_all P (dropWhile (\<lambda>x. \<not> isSpace x) cs)"
      using 2(3) by (auto simp: list_all_iff dest: set_dropWhileD)
    then have b: "list_all P (titleCase (dropWhile (\<lambda>x. \<not> isSpace x) cs))"
      using 2(1)[OF True] by simp
    show ?thesis using True a b 2(3) assms by simp
  next
    case False
    then show ?thesis using 2 by simp
  qed
qed

lemma set_splitWs: "w \<in> set (splitWs s) \<Longrightarrow> set w \<subseteq> set s"
proof (induction s arbitrary: w rule: splitWs.induct)
  case 1
  then show ?case by simp
next
  case (2 c cs)
  show ?case
  proof (cases "isSpace c")
    case True
    then have "w = [] \<or> w \<in> set (splitWs (dropWhile isSpace cs))" using 2(3) by simp
    then show ?thesis
    proof
      assume "w = []" then show ?thesis by simp
    next
      assume "w \<in> set (splitWs (dropWhile isSpace cs))"
      then have "set w \<subseteq> set (dropWhile isSpace cs)" using 2(1)[OF True] by simp
      then show ?thesis using set_dropWhileD by fastforce
    qed
  next
    case False
    have ne: "splitWs cs \<noteq> []" by (rule splitWs_nonempty)
    from 2(3) False have "w = c # hd (splitWs cs) \<or> w \<in> set (tl (splitWs cs))"
      by (simp add: Let_def)
    then show ?thesis
    proof
      assume w: "w = c # hd (splitWs cs)"
      have "set (hd (splitWs cs)) \<subseteq> set cs" using 2(2)[OF False, of "hd (splitWs cs)"] ne by simp
      then show ?thesis using w by auto
    next
      assume "w \<in> set (tl (splitWs cs))"
      then have "w \<in> set (splitWs cs)" using ne by (metis list.set_sel(2))
      then show ?thesis using 2(2)[OF False] by auto
    qed
  qed
qed

lemma set_join: "set (join sep ws) \<subseteq> set sep \<union> \<Union> (set ` set ws)"
  by (induction sep ws rule: join.induct) auto

lemma set_collapseSpaces: "set (collapseSpaces s) \<subseteq> insert 32 (set s)"
proof (induction s rule: collapseSpaces.induct)
  case 1
  then show ?case by simp
next
  case (2 c cs)
  show ?case
  proof (cases "isSpace c \<and> cs \<noteq> [] \<and> isSpace (hd cs)")
    case True
    then have "set (collapseSpaces (dropWhile isSpace cs)) \<subseteq> insert 32 (set (dropWhile isSpace cs))"
      using 2(1) by simp
    moreover have "set (dropWhile isSpace cs) \<subseteq> set cs" using set_dropWhileD by fastforce
    ultimately show ?thesis using True by auto
  next
    case False
    then have "set (collapseSpaces cs) \<subseteq> insert 32 (set cs)" using 2(2) by simp
    then show ?thesis using False by auto
  qed
qed

lemma upperCU_markdown: "\<not> isMarkdownChar c \<Longrightarrow> isWord c \<Longrightarrow> \<not> isMarkdownChar (upperCU c)"
  by (auto simp: isMarkdownChar_def isWord_def upperCU_def)

lemma sanitizeTitle_markdown: "\<not> list_ex isMarkdownChar (sanitizeTitle t0)"
proof -
  define x where "x = collapseSpaces (stripMarkdown (trim t0))"
  define j where "j = join (js '' '') (take 12 (splitWs x))"
  have a: "\<forall>c \<in> set (stripMarkdown (trim t0)). \<not> isMarkdownChar c"
    by (simp add: stripMarkdown_def)
  have m: "\<not> isMarkdownChar 32" by (simp add: isMarkdownChar_def)
  have b: "\<forall>c \<in> set x. \<not> isMarkdownChar c"
    using a m set_collapseSpaces[of "stripMarkdown (trim t0)"] unfolding x_def by blast
  have "\<forall>c \<in> set j. \<not> isMarkdownChar c"
  proof
    fix c assume "c \<in> set j"
    then have "c \<in> set (js '' '') \<or> (\<exists>w \<in> set (take 12 (splitWs x)). c \<in> set w)"
      using set_join[of "js '' ''" "take 12 (splitWs x)"] unfolding j_def by auto
    then show "\<not> isMarkdownChar c"
    proof
      assume "c \<in> set (js '' '')"
      then show ?thesis using m by (simp add: js_def)
    next
      assume "\<exists>w \<in> set (take 12 (splitWs x)). c \<in> set w"
      then obtain w where "w \<in> set (splitWs x)" "c \<in> set w"
        by (meson in_set_takeD)
      then have "c \<in> set x" using set_splitWs by blast
      then show ?thesis using b by simp
    qed
  qed
  then have "list_all (\<lambda>c. \<not> isMarkdownChar c) j" by (simp add: list_all_iff)
  then have "list_all (\<lambda>c. \<not> isMarkdownChar c) (titleCase j)"
    using list_all_titleCase[of "\<lambda>c. \<not> isMarkdownChar c" j] upperCU_markdown by blast
  then have "list_all (\<lambda>c. \<not> isMarkdownChar c) (take 80 (titleCase j))"
    by (auto simp: list_all_iff dest: in_set_takeD)
  then show ?thesis
    by (simp add: sanitizeTitle_def x_def j_def list_all_iff list_ex_iff)
qed

lemma sanitizeTitle_length: "length (sanitizeTitle t0) \<le> 80"
  by (simp add: sanitizeTitle_def)

lemma sanitizeTitle_words: "wordStarts True (sanitizeTitle t0) \<le> 12"
proof -
  define ws where "ws = take 12 (splitWs (collapseSpaces (stripMarkdown (trim t0))))"
  have n: "\<forall>w \<in> set ws. \<not> list_ex isSpace w"
    unfolding ws_def using splitWs_noSpace by (meson in_set_takeD)
  have "wordStarts True (sanitizeTitle t0) \<le> wordStarts True (titleCase (join (js '' '') ws))"
    by (simp add: sanitizeTitle_def ws_def wordStarts_take)
  also have "\<dots> = wordStarts True (join (js '' '') ws)" by (rule wordStarts_titleCase)
  also have "\<dots> \<le> length ws" using wordStarts_join[OF n] .
  also have "\<dots> \<le> 12" by (simp add: ws_def)
  finally show ?thesis .
qed

lemma titleErrors_sanitized:
  assumes "t = sanitizeTitle t0" "trim t \<noteq> []"
  shows "errIf (trim t = []) a @ errIf (length (trim t) > 80) b @
         errIf (length (filter (\<lambda>w. w \<noteq> []) (splitWs (trim t))) > 12) c @
         errIf (list_ex isMarkdownChar (trim t)) d = []"
proof -
  have 1: "length (trim t) \<le> 80"
    using length_trim[of t] sanitizeTitle_length[of t0] assms(1) by simp
  have 2: "wordCount (trim t) \<le> 12"
    using wordStarts_trim[of t] sanitizeTitle_words[of t0] assms(1)
    by (simp add: wordCount_wordStarts)
  have 3: "\<not> list_ex isMarkdownChar (trim t)"
    using sanitizeTitle_markdown[of t0] set_trim[of t] assms(1) by (auto simp: list_ex_iff)
  show ?thesis using assms(2) 1 2 3 by (simp add: errIf_def wordCount_def)
qed


section \<open>The validator on the records of the guard block\<close>


lemma enrichTags_bounds:
  "3 \<le> length (enrichTags toLowerCase tags0 textLower) \<and> length (enrichTags toLowerCase tags0 textLower) \<le> 7"
proof -
  define arr where "arr = take 7 (foldl setAdd (newSet (map (normTag toLowerCase) tags0)) (vocabHits textLower))"
  have "length arr \<le> 7" by (simp add: arr_def)
  then have "length (padTags arr) \<le> 7" by (rule padTags_le)
  moreover have "3 \<le> length (padTags arr)" by (rule padTags_length)
  moreover have "enrichTags toLowerCase tags0 textLower = padTags arr"
    by (simp add: enrichTags_def arr_def)
  ultimately show ?thesis by simp
qed

lemma guard_lane: "lane (guardValues toLowerCase force body n0) \<in> Some ` set allowedLanes"
  by (simp add: guard_steps allowedLanes_def)

lemma guard_status: "status (guardValues toLowerCase force body n0) = Some (js ''draft'')"
  by (simp add: guard_steps)

lemma guard_targets:
  "\<exists>ps. publish_targets (guardValues toLowerCase force body n0) = Some ps \<and> ps \<noteq> []"
  by (cases "publish_targets n0") (auto simp: guard_steps)

lemma guard_tags:
  "\<exists>ts. tags (guardValues toLowerCase force body n0) = Some ts \<and> 3 \<le> length ts \<and> length ts \<le> 7"
  using enrichTags_bounds by (simp add: guard_steps)

lemma guard_title:
  "title (guardValues toLowerCase force body n0) =
     (if truthy (title n0) then Some (sanitizeTitle (the (title n0))) else title n0)"
  by (simp add: guard_steps)

lemma toStr_orEmpty: "toStr (orEmpty (Some (JStr s))) = s"
  by (simp add: orEmpty_def jsTruthy_def)

lemma arrayOf_JArr: "arrayOf (Some (JArr xs)) = xs"
  by (simp add: arrayOf_def)

lemma validate_persisted:
  assumes "fieldsClean n"
  shows "validateFile (persistedText n body) strictMode =
           titleErrors (fmOf n) @ laneErrors (fmOf n) @ statusErrors (fmOf n) @ tagErrors (fmOf n) @
           targetErrors (fmOf n) @ summaryErrors (fmOf n) @
           bodyErrors (trim (contentOrBody n body)) strictMode"
proof -
  have p: "parseFrontmatter (persistedText n body) = (fmOf n, trim (contentOrBody n body))"
    using parseFrontmatter_toFrontmatter(1)[OF assms] by (simp add: persistedText_def trim_bodyOut)
  have k: "filter (\<lambda>k. getProp (fmOf n) k = None) reqKeys = []"
    by (simp add: reqKeys_def getProp_fmOf)
  show ?thesis by (simp add: validateFile_def p k)
qed

lemma artifact_slug: "isSlug (js ''artifact'')" "isSlug (js ''note'')"
  by (simp_all add: isSlug_def isSlugChar_def js_def)

lemma github_allowed: "js ''github'' \<in> set allowedTargets"
  by (simp add: allowedTargets_def)

lemma example_short_heuristic:
  "heuristicNormalize toLowerCaseAscii example_short =
     \<lparr> title = Some (js ''Short note''), lane = Some (js ''E''),
       status = Some (js ''draft''), tags = Some [], source_refs = Some [],
       summary = Some (js ''Short note''),
       publish_targets = Some [js ''github''], content = None \<rparr>"
  by (simp add: heuristicNormalize_def example_short_def defaultFrontmatter_def heuristicLane_def
      heuristicKeywords_def js_eval)

lemma example_short_title: "sanitizeTitle (js ''Short note'') = js ''Short Note''"
  by (simp add: sanitizeTitle_def js_eval)

lemma example_short_vocab: "vocabHits (toLowerCaseAscii example_short) = [js ''note'']"
  by (simp add: vocabHits_def tagVocab_def example_short_def js_eval)

lemma example_short_tags:
  "enrichTags toLowerCaseAscii [] (toLowerCaseAscii example_short) = [js ''note'', js ''artifact'', js ''artifact'']"
  by (simp add: enrichTags_def example_short_vocab newSet_def setAdd_def padTags_short numeral_3_eq_3)

lemma example_short_guard:
  "guardValues toLowerCaseAscii [] example_short (heuristicNormalize toLowerCaseAscii example_short) =
     \<lparr> title = Some (js ''Short Note''), lane = Some (js ''E''),
       status = Some (js ''draft''), tags = Some [js ''note'', js ''artifact'', js ''artifact''],
       source_refs = Some [],
       summary = Some (js ''Short note''),
       publish_targets = Some [js ''github''], content = None \<rparr>"
proof -
  have t: "truthy (Some (js ''Short note''))" "\<not> truthy None"
    by (simp_all add: truthy_def js_def)
  have l: "Some (js ''E'') \<in> Some ` set allowedLanes"
    by (simp add: allowedLanes_def)
  show ?thesis
    by (simp add: guard_steps example_short_heuristic example_short_title example_short_tags t l)
qed

text \<open>
  Claim C1, as stated, fails. The draft \<open>Short note\<close> goes through the local
  heuristic and the guard block, and the validator reports its persisted record: the
  body has fewer than 20 characters, a rule that the guard block does not look at.
\<close>

theorem validator_soundness_counterexample:
  "validateFile
     (persistedText (guardValues toLowerCaseAscii [] example_short (heuristicNormalize toLowerCaseAscii example_short)) example_short)
     False = [js ''content body too short'']"
proof -
  let ?n = "guardValues toLowerCaseAscii [] example_short (heuristicNormalize toLowerCaseAscii example_short)"
  have cl: "fieldsClean ?n"
    by (simp add: example_short_guard fieldsClean_def orElse_def truthy_def noSeparator_def js_def)
  have e1: "titleErrors (fmOf ?n) = []"
    by (simp add: example_short_guard titleErrors_def getProp_fmOf toStr_orEmpty orElse_def truthy_def
        errIf_def) (simp add: js_eval)
  have e2: "laneErrors (fmOf ?n) = []"
    by (simp add: example_short_guard laneErrors_def getProp_fmOf toStr_orEmpty orElse_def truthy_def
        errIf_def allowedLanes_def) (simp add: js_eval)
  have e3: "statusErrors (fmOf ?n) = []"
    by (simp add: example_short_guard statusErrors_def getProp_fmOf toStr_orEmpty orElse_def truthy_def
        errIf_def allowedStatus_def) (simp add: js_eval)
  have e4: "tagErrors (fmOf ?n) = []"
    by (simp add: example_short_guard tagErrors_def getProp_fmOf arrayOf_JArr errIf_def artifact_slug)
  have e5: "targetErrors (fmOf ?n) = []"
    by (simp add: example_short_guard targetErrors_def getProp_fmOf arrayOf_JArr errIf_def github_allowed)
  have e6: "summaryErrors (fmOf ?n) = []"
    by (simp add: example_short_guard summaryErrors_def getProp_fmOf toStr_orEmpty orElse_def truthy_def
        errIf_def) (simp add: js_eval)
  have e7: "bodyErrors (trim (contentOrBody ?n example_short)) False = [js ''content body too short'']"
    by (simp add: example_short_guard contentOrBody_def truthy_def bodyErrors_def errIf_def trim_trim)
       (simp add: example_short_def js_eval)
  show ?thesis
    by (simp only: validate_persisted[OF cl] e1 e2 e3 e4 e5 e6 e7) simp
qed

text \<open>
  Claim C1, amended. The guard block ensures the rules on the lane, the status, the
  length, the word count and the markup characters of the title, the number of tags and
  the presence of a publish target. So the validator in non-strict mode reports no
  error for the persisted record of the guard block whenever the record meets the rules
  that the guard block does not enforce: the title is not empty, every tag is a slug,
  every publish target is an allowed one, the summary is not empty and has at most 240
  characters, and the body has at least 20 characters (all after trimming), with no
  separator U+2028 or U+2029 in the title and the summary.
\<close>

theorem sanitized_record_validates:
  assumes "n = guardValues toLowerCase force body n0"
    and "title n = Some t" and "trim t \<noteq> []" and "noSeparator t"
    and "summary n = Some sm" and "trim sm \<noteq> []" and "length (trim sm) \<le> 240"
    and "noSeparator sm"
    and "list_all isSlug (the (tags n))"
    and "list_all (\<lambda>p. p \<in> set allowedTargets) (the (publish_targets n))"
    and "20 \<le> length (trim (contentOrBody n body))"
  shows "validateFile (persistedText n body) False = []"
proof -
  have tne: "t \<noteq> []" and sne: "sm \<noteq> []" using assms(3,6) trim_Nil by auto
  obtain l where l: "lane n = Some l" "l \<in> set allowedLanes"
    using guard_lane[of toLowerCase force body n0] assms(1) by auto
  have st: "status n = Some (js ''draft'')" using guard_status assms(1) by simp
  have std: "js ''draft'' \<in> set allowedStatus" by (simp add: allowedStatus_def)
  obtain ps where ps: "publish_targets n = Some ps" "ps \<noteq> []"
    using guard_targets[of toLowerCase force body n0] assms(1) by auto
  obtain ts where ts: "tags n = Some ts" "3 \<le> length ts" "length ts \<le> 7"
    using guard_tags[of toLowerCase force body n0] assms(1) by auto
  have slug: "list_all isSlug ts" using assms(9) ts(1) by simp
  have targ: "list_all (\<lambda>p. p \<in> set allowedTargets) ps" using assms(10) ps(1) by simp
  have san: "t = sanitizeTitle (the (title n0))"
    using assms(1,2) tne guard_title[of toLowerCase force body n0] by (auto simp: truthy_def split: if_splits option.splits)
  have clean: "fieldsClean n"
    using assms(2,4,5,8) tne sne l st ts(1) ps(1) slug targ allowedLanes_facts[OF l(2)]
      allowedStatus_facts[OF std] isSlug_noSeparator allowedTargets_facts
    by (auto simp: fieldsClean_def orElse_Some list_all_iff)
  have e1: "titleErrors (fmOf n) = []"
    using titleErrors_sanitized[OF san assms(3)] assms(2) tne
    by (simp add: titleErrors_def getProp_fmOf toStr_orEmpty orElse_Some)
  have e2: "laneErrors (fmOf n) = []"
    using l allowedLanes_facts[OF l(2)]
    by (simp add: laneErrors_def getProp_fmOf toStr_orEmpty orElse_Some errIf_def)
  have e3: "statusErrors (fmOf n) = []"
    using st allowedStatus_facts[OF std] std
    by (simp add: statusErrors_def getProp_fmOf toStr_orEmpty orElse_Some errIf_def)
  have bad: "filter (\<lambda>t. \<not> isSlug (toStr t)) (map JStr ts) = []"
    using slug by (simp add: filter_empty_conv list_all_iff)
  have e4: "tagErrors (fmOf n) = []"
    using ts bad by (auto simp: tagErrors_def getProp_fmOf arrayOf_JArr errIf_def Let_def)
  have badp: "filter (\<lambda>t. toStr t \<notin> set allowedTargets) (map JStr ps) = []"
    using targ by (simp add: filter_empty_conv list_all_iff)
  have e5: "targetErrors (fmOf n) = []"
    using ps badp by (auto simp: targetErrors_def getProp_fmOf arrayOf_JArr errIf_def Let_def)
  have e6: "summaryErrors (fmOf n) = []"
    using assms(5,6,7) sne
    by (simp add: summaryErrors_def getProp_fmOf toStr_orEmpty orElse_Some errIf_def)
  have e7: "bodyErrors (trim (contentOrBody n body)) False = []"
    using assms(11) by (simp add: bodyErrors_def errIf_def trim_trim)
  show ?thesis
    by (simp add: validate_persisted[OF clean] e1 e2 e3 e4 e5 e6 e7)
qed

text \<open>The first example body through the local heuristic and the guard block.\<close>

theorem sanitized_record_validates_witness:
  "title (guardValues toLowerCaseAscii [] example_body (heuristicNormalize toLowerCaseAscii example_body))
     = Some (js ''Keep Artifacts Atomic: One Idea Per Post.'') \<and>
   trim (js ''Keep Artifacts Atomic: One Idea Per Post.'') \<noteq> [] \<and>
   noSeparator (js ''Keep Artifacts Atomic: One Idea Per Post.'') \<and>
   summary (guardValues toLowerCaseAscii [] example_body (heuristicNormalize toLowerCaseAscii example_body))
     = Some (js ''Keep artifacts atomic: one idea per post.'') \<and>
   trim (js ''Keep artifacts atomic: one idea per post.'') \<noteq> [] \<and>
   length (trim (js ''Keep artifacts atomic: one idea per post.'')) \<le> 240 \<and>
   noSeparator (js ''Keep artifacts atomic: one idea per post.'') \<and>
   list_all isSlug (the (tags (guardValues toLowerCaseAscii [] example_body (heuristicNormalize toLowerCaseAscii example_body)))) \<and>
   list_all (\<lambda>p. p \<in> set allowedTargets)
     (the (publish_targets (guardValues toLowerCaseAscii [] example_body (heuristicNormalize toLowerCaseAscii example_body)))) \<and>
   20 \<le> length (trim (contentOrBody (guardValues toLowerCaseAscii [] example_body (heuristicNormalize toLowerCaseAscii example_body))
     example_body)) \<and>
   validateFile (persistedText (guardValues toLowerCaseAscii [] example_body (heuristicNormalize toLowerCaseAscii example_body))
     example_body) False = []"
proof -
  let ?n = "guardValues toLowerCaseAscii [] example_body (heuristicNormalize toLowerCaseAscii example_body)"
  have 1: "title ?n = Some (js ''Keep Artifacts Atomic: One Idea Per Post.'')"
    by (simp add: example_guard)
  have 2: "trim (js ''Keep Artifacts Atomic: One Idea Per Post.'') \<noteq> []"
    by (simp add: js_eval)
  have 3: "noSeparator (js ''Keep Artifacts Atomic: One Idea Per Post.'')"
    by (simp add: noSeparator_def js_def)
  have 4: "summary ?n = Some (js ''Keep artifacts atomic: one idea per post.'')"
    by (simp add: example_guard)
  have 5: "trim (js ''Keep artifacts atomic: one idea per post.'') \<noteq> []"
    by (simp add: js_eval)
  have 6: "length (trim (js ''Keep artifacts atomic: one idea per post.'')) \<le> 240"
    by (simp add: js_eval)
  have 7: "noSeparator (js ''Keep artifacts atomic: one idea per post.'')"
    by (simp add: noSeparator_def js_def)
  have 8: "list_all isSlug (the (tags ?n))"
    by (simp add: example_guard artifact_slug)
  have 9: "list_all (\<lambda>p. p \<in> set allowedTargets) (the (publish_targets ?n))"
    by (simp add: example_guard github_allowed)
  have 10: "20 \<le> length (trim (contentOrBody ?n example_body))"
    by (simp add: example_guard contentOrBody_def truthy_def) (simp add: example_body_def js_eval)
  show ?thesis
    using sanitized_record_validates[OF refl 1 2 3 4 5 6 7 8 9 10] 1 2 3 4 5 6 7 8 9 10
    by simp
qed


section \<open>The guard block applied twice\<close>

lemma example_marked_heuristic_title:
  "title (heuristicNormalize toLowerCaseAscii example_marked) = Some (js ''* keep it short and keep it atomic'')"
  by (simp add: heuristicNormalize_def example_marked_def js_eval)

lemma example_marked_once:
  "sanitizeTitle (js ''* keep it short and keep it atomic'') = js '' Keep It Short And Keep It Atomic''"
  by (simp add: sanitizeTitle_def js_eval)

lemma example_marked_twice:
  "sanitizeTitle (js '' Keep It Short And Keep It Atomic'') = js ''Keep It Short And Keep It Atomic''"
  by (simp add: sanitizeTitle_def js_eval)

text \<open>
  Claim C3 at a draft whose first line is a list item. The guard block trims the title
  before it strips the markup characters, so the space after the asterisk stays at
  the start of the title; a second application trims it away. Applying the block twice
  is not the same as applying it once.
\<close>

theorem sanitizer_not_idempotent:
  "title (guardValues toLowerCaseAscii [] example_marked (heuristicNormalize toLowerCaseAscii example_marked))
     = Some (js '' Keep It Short And Keep It Atomic'') \<and>
   title (guardValues toLowerCaseAscii [] example_marked
            (guardValues toLowerCaseAscii [] example_marked (heuristicNormalize toLowerCaseAscii example_marked)))
     = Some (js ''Keep It Short And Keep It Atomic'') \<and>
   guardValues toLowerCaseAscii [] example_marked (guardValues toLowerCaseAscii [] example_marked (heuristicNormalize toLowerCaseAscii example_marked))
     \<noteq> guardValues toLowerCaseAscii [] example_marked (heuristicNormalize toLowerCaseAscii example_marked)"
proof -
  have t: "truthy (Some (js ''* keep it short and keep it atomic''))"
    "truthy (Some (js '' Keep It Short And Keep It Atomic''))"
    by (simp_all add: truthy_def js_def)
  have 1: "title (guardValues toLowerCaseAscii [] example_marked (heuristicNormalize toLowerCaseAscii example_marked))
     = Some (js '' Keep It Short And Keep It Atomic'')"
    by (simp add: guard_title example_marked_heuristic_title t example_marked_once)
  have 2: "title (guardValues toLowerCaseAscii [] example_marked
            (guardValues toLowerCaseAscii [] example_marked (heuristicNormalize toLowerCaseAscii example_marked)))
     = Some (js ''Keep It Short And Keep It Atomic'')"
    by (simp add: guard_title[of toLowerCaseAscii "[]" example_marked "guardValues toLowerCaseAscii [] example_marked (heuristicNormalize toLowerCaseAscii example_marked)"]
        1 t example_marked_twice)
  have "js '' Keep It Short And Keep It Atomic'' \<noteq> js ''Keep It Short And Keep It Atomic''"
    by (simp add: js_def)
  then show ?thesis using 1 2 by auto
qed


section \<open>The conditions of the two amended claims\<close>

lemma matchKeyValue_separator:
  assumes "list_all isKeyChar key" "v \<noteq> []" "\<not> isSpace (hd v)" "list_ex isLineTerminator v"
  shows "matchKeyValue (key @ 58 # 32 # v) = None"
proof -
  have k: "\<not> isKeyChar 58" by (simp add: isKeyChar_def)
  have t: "takeWhile isKeyChar (key @ 58 # 32 # v) = key"
    using assms(1) k by (simp add: takeWhile_append2 list_all_iff)
  have d: "dropWhile isKeyChar (key @ 58 # 32 # v) = 58 # 32 # v"
    using assms(1) k by (simp add: dropWhile_append2 list_all_iff)
  have sp: "isSpace 32" by (simp add: isSpace_def)
  have s: "dropWhile isSpace (32 # v) = v"
    using assms(2,3) sp by (cases v) simp_all
  show ?thesis
    using assms(4) by (simp add: matchKeyValue_def t d s del: dropWhile.simps)
qed

lemma example_separated_valid: "spec_validRecord example_separated"
  by (simp add: spec_validRecord_def example_separated_def example_record_no_refs_def
      example_record_def wordCount_def allowedLanes_def allowedStatus_def allowedTargets_def
      isSlug_def isSlugChar_def js_eval)

text \<open>
  A valid record without sources whose title has the line separator U+2028:
  \<open>JSON.stringify\<close> writes the separator as it is, the dot of the line pattern does
  not match it, and the line parser leaves the title line out.
\<close>

lemma separator_breaks_round_trip:
  "spec_validRecord example_separated \<and> source_refs example_separated = Some [] \<and>
   getProp (fst (parseFrontmatter (persistedText example_separated example_body))) (js ''title'')
     = None \<and>
   \<not> spec_roundTrip example_separated example_body"
proof -
  let ?r = "example_separated"
  let ?t = "js ''Kernel'' @ 8232 # js ''Loop''"
  have f: "title ?r = Some ?t" "lane ?r = Some (js ''D'')" "status ?r = Some (js ''publish'')"
    "tags ?r = Some [js ''kernel'', js ''loop'', js ''plan'']" "source_refs ?r = Some []"
    "summary ?r = Some (js ''Plan, patch, test, stop.'')" "publish_targets ?r = Some [js ''gist'']"
    by (simp_all add: example_separated_def example_record_no_refs_def example_record_def)
  have o: "orElse (Some ?t) [] = ?t" "orElse (Some (js ''D'')) (js ''A'') = js ''D''"
    "orElse (Some (js ''publish'')) (js ''draft'') = js ''publish''"
    "orElse (Some (js ''Plan, patch, test, stop.'')) [] = js ''Plan, patch, test, stop.''"
    by (simp_all add: orElse_def truthy_def js_def)
  have n: "noSeparator (js ''D'')" "noSeparator (js ''publish'')"
    "noSeparator (js ''Plan, patch, test, stop.'')"
    "list_all noSeparator [js ''kernel'', js ''loop'', js ''plan'']"
    "list_all noSeparator [js ''gist'']"
    by (simp_all add: noSeparator_def js_def)
  have lt: "list_ex isLineTerminator (stringifyString ?t)"
    by (simp add: stringifyString_def quoteUnit_def isLineTerminator_def isHighSurrogate_def
        isLowSurrogate_def js_def)
  have g1: "goodLine (js ''title'' @ 58 # 32 # stringifyString ?t)"
    by (simp add: goodLine_def stringifyString_def quoteUnit_def isHighSurrogate_def
        isLowSurrogate_def isSpace_def js_def)
  have g: "list_all goodLine (frontLines ?r)"
    using g1 n by (simp add: frontLines_def f o key_facts goodLine_string goodLine_array key_shape)
  have m: "parseLine fm (js ''title'' @ 58 # 32 # stringifyString ?t) = fm" for fm
    using matchKeyValue_separator[OF key_chars(1) _ _ lt]
    by (simp add: parseLine_def stringifyString_ends isSpace_def)
  have ne: "frontLines ?r \<noteq> []" by (simp add: frontLines_def)
  have md: "persistedText ?r example_body =
      js ''---'' @ block (frontLines ?r) @ 10 # js ''---'' @ (10 # trim example_body @ [10])"
    by (simp add: persistedText_def toFrontmatter_block contentOrBody_def truthy_def
        example_separated_def example_record_no_refs_def example_record_def)
  have p: "fst (parseFrontmatter (persistedText ?r example_body)) = foldl parseLine emptyFm (frontLines ?r)"
    unfolding md by (simp only: parseFrontmatter_block(1)[OF ne g] fst_conv)
  have fold: "own (foldl parseLine emptyFm (frontLines ?r)) (js ''title'') = None \<and>
      proto (foldl parseLine emptyFm (frontLines ?r)) = None"
    using n
    by (simp add: frontLines_def f o key_facts m parseLine_string parseLine_array key_chars
        key_shape setProp_def emptyFm_def) (simp add: js_def)
  have t: "getProp (fst (parseFrontmatter (persistedText ?r example_body))) (js ''title'') = None"
    using fold by (simp add: p getProp_def)
  show ?thesis
    using example_separated_valid t f
    by (simp add: spec_roundTrip_def recordFields_def)
qed

lemma example_unchecked_title: "sanitizeTitle (js ''***'') = []"
  by (simp add: sanitizeTitle_def js_eval)

lemma example_unchecked_tags:
  "enrichTags toLowerCaseAscii [js ''C++''] (toLowerCaseAscii example_body) = [js ''c++'', js ''artifact'', js ''artifact'']"
proof -
  have n: "normTag toLowerCaseAscii (js ''C++'') = js ''c++''"
    by (simp add: normTag_def js_eval)
  show ?thesis
    by (simp add: enrichTags_def example_vocab n newSet_def setAdd_def padTags_short numeral_3_eq_3)
qed

lemma example_unchecked_guard:
  "guardValues toLowerCaseAscii [] example_body example_unchecked =
     \<lparr> title = Some [], lane = Some (js ''C''), status = Some (js ''draft''),
       tags = Some [js ''c++'', js ''artifact'', js ''artifact''], source_refs = None,
       summary = None, publish_targets = Some [js ''blog''], content = None \<rparr>"
proof -
  have t: "truthy (Some (js ''***''))" "\<not> truthy None"
    by (simp_all add: truthy_def js_def)
  have l: "Some (js ''C'') \<in> Some ` set allowedLanes"
    by (simp add: allowedLanes_def)
  have b: "js ''blog'' \<noteq> []" by (simp add: js_def)
  show ?thesis
    using b
    by (simp add: guard_steps example_unchecked_def example_unchecked_title example_unchecked_tags t l)
qed

text \<open>
  A result of the remote variant through the guard block: the validator reports the
  empty title, the tag that is no slug, the publish target that is not allowed and the
  missing summary, the rules that the guard block does not enforce.
\<close>

lemma unenforced_rules_are_reported:
  "validateFile (persistedText (guardValues toLowerCaseAscii [] example_body example_unchecked) example_body) False =
     [js ''title is empty'', js ''bad tag slugs: c++'', js ''invalid publish_targets: blog'',
      js ''summary empty'']"
proof -
  let ?n = "guardValues toLowerCaseAscii [] example_body example_unchecked"
  have cl: "fieldsClean ?n"
    by (simp add: example_unchecked_guard fieldsClean_def orElse_def truthy_def noSeparator_def js_def)
  have s: "\<not> isSlug (js ''c++'')" "isSlug (js ''artifact'')"
    "js ''blog'' \<notin> set allowedTargets"
    by (simp_all add: isSlug_def isSlugChar_def allowedTargets_def js_def)
  have e1: "titleErrors (fmOf ?n) = [js ''title is empty'']"
    by (simp add: example_unchecked_guard titleErrors_def getProp_fmOf toStr_orEmpty orElse_def
        truthy_def errIf_def trim_Nil)
  have e2: "laneErrors (fmOf ?n) = []"
    by (simp add: example_unchecked_guard laneErrors_def getProp_fmOf toStr_orEmpty orElse_def
        truthy_def errIf_def allowedLanes_def) (simp add: js_eval)
  have e3: "statusErrors (fmOf ?n) = []"
    by (simp add: example_unchecked_guard statusErrors_def getProp_fmOf toStr_orEmpty orElse_def
        truthy_def errIf_def allowedStatus_def) (simp add: js_eval)
  have e4: "tagErrors (fmOf ?n) = [js ''bad tag slugs: c++'']"
    by (simp add: example_unchecked_guard tagErrors_def getProp_fmOf arrayOf_JArr errIf_def s)
       (simp add: js_def)
  have e5: "targetErrors (fmOf ?n) = [js ''invalid publish_targets: blog'']"
    by (simp add: example_unchecked_guard targetErrors_def getProp_fmOf arrayOf_JArr errIf_def s)
       (simp add: js_def)
  have e6: "summaryErrors (fmOf ?n) = [js ''summary empty'']"
    by (simp add: example_unchecked_guard summaryErrors_def getProp_fmOf toStr_orEmpty orElse_def
        truthy_def errIf_def trim_Nil)
  have e7: "bodyErrors (trim (contentOrBody ?n example_body)) False = []"
    by (simp add: example_unchecked_guard contentOrBody_def truthy_def bodyErrors_def errIf_def
        trim_trim) (simp add: example_body_def js_eval)
  show ?thesis
    by (simp only: validate_persisted[OF cl] e1 e2 e3 e4 e5 e6 e7) simp
qed


end
